theory Spec2Isabelle
  imports Main "HOL-Library.AList" "HOL-Library.List_Lexorder"
begin

unbundle bit_operations_syntax

section \<open>Go strings and the standard-library functions the pipeline calls\<close>

text \<open>
  A Go string is modelled by the sequence of runes (Go's \<^verbatim>\<open>rune\<close> is \<^verbatim>\<open>int32\<close>; a
  rune here is the integer code point) that
  \<^verbatim>\<open>range\<close>, \<^verbatim>\<open>[]rune(s)\<close>, package \<^verbatim>\<open>regexp\<close> and package \<^verbatim>\<open>strings\<close> decode
  from it. Every delimiter the code searches for is ASCII, so an index into the rune
  sequence cuts the string where the byte index of the source cuts it.
\<close>

type_synonym rune = int
type_synonym gostring = "rune list"

definition asc :: "string \<Rightarrow> gostring" where
  "asc s = map of_char s"

section \<open>Data model\<close>

text \<open>
  A \<^verbatim>\<open>time.Time\<close> is an instant, in nanoseconds since the Unix epoch, and the offset of
  its location at that instant, in seconds east of UTC.
\<close>

record Time =
  nanos :: int
  offset :: int

text \<open>\<^verbatim>\<open>rawNews\<close> (worker/main.go) and \<^verbatim>\<open>models.NewsDocument\<close>.\<close>

record rawNews =
  Title :: gostring
  Text :: gostring
  Timestamp :: gostring
  Source :: gostring

record NewsDocument =
  ID :: gostring
  Title :: gostring
  Text :: gostring
  Timestamp :: Time
  Keywords :: "gostring list"
  Source :: gostring
  URLs :: "gostring list"

text \<open>The three layouts \<^verbatim>\<open>parseTimestamp\<close> tries.\<close>

datatype layout = RFC3339Nano | RFC3339 | Legacy

text \<open>
  The functions of the Go standard library whose tables and parsers are not part of
  the repository are parameters of the model: the Unicode classes \<^verbatim>\<open>\p{L}\<close>
  (\<^verbatim>\<open>unicode.IsLetter\<close>) and \<^verbatim>\<open>\p{N}\<close> (\<^verbatim>\<open>unicode.IsNumber\<close>), \<^verbatim>\<open>unicode.ToLower\<close>,
  \<^verbatim>\<open>html.UnescapeString\<close>, \<^verbatim>\<open>json.Unmarshal\<close> into a \<^verbatim>\<open>rawNews\<close> (\<open>None\<close> when it
  returns an error) and \<^verbatim>\<open>time.Parse\<close> (\<open>None\<close> when it returns an error).
\<close>

record stdlib =
  IsLetter :: "rune \<Rightarrow> bool"
  IsNumber :: "rune \<Rightarrow> bool"
  ToLower :: "rune \<Rightarrow> rune"
  UnescapeString :: "gostring \<Rightarrow> gostring"
  json_Unmarshal :: "int list \<Rightarrow> rawNews option"
  time_Parse :: "layout \<Rightarrow> gostring \<Rightarrow> Time option"

text \<open>
  What the theorems below use of these functions: \<^verbatim>\<open>html.UnescapeString\<close> returns a
  string without \<^verbatim>\<open>&\<close> as it is, and neither \<^verbatim>\<open>&\<close> nor \<^verbatim>\<open>:\<close> is a letter or a number.
\<close>

definition stdlib_facts :: "stdlib \<Rightarrow> bool" where
  "stdlib_facts L =
     ((\<forall>s. 38 \<notin> set s \<longrightarrow> UnescapeString L s = s)
      \<and> \<not> IsLetter L 38 \<and> \<not> IsNumber L 38 \<and> \<not> IsLetter L 58 \<and> \<not> IsNumber L 58)"

section \<open>Package strings and the URL pattern\<close>

text \<open>\<^verbatim>\<open>unicode.IsSpace\<close>: the code points with the Unicode White_Space property.\<close>

definition IsSpace :: "rune \<Rightarrow> bool" where
  "IsSpace r = (r \<in> {9, 10, 11, 12, 13, 32, 133, 160, 5760, 8232, 8233, 8239, 8287, 12288}
     \<or> (8192 \<le> r \<and> r \<le> 8202))"

text \<open>The class \<^verbatim>\<open>\s\<close> of Go's regexp syntax (RE2): tab, newline, form feed,
  carriage return and space only.\<close>

definition re_space :: "rune \<Rightarrow> bool" where
  "re_space r = (r \<in> {9, 10, 12, 13, 32})"

text \<open>\<^verbatim>\<open>strings.TrimFunc\<close> and \<^verbatim>\<open>strings.TrimSpace\<close>.\<close>

definition TrimFunc :: "gostring \<Rightarrow> (rune \<Rightarrow> bool) \<Rightarrow> gostring" where
  "TrimFunc s f = rev (dropWhile f (rev (dropWhile f s)))"

definition TrimSpace :: "gostring \<Rightarrow> gostring" where
  "TrimSpace s = TrimFunc s IsSpace"

text \<open>\<^verbatim>\<open>strings.Fields\<close>: the maximal runs of non-space runes, in order. The first
  argument of the loop is the word being read.\<close>

fun fields_from :: "gostring \<Rightarrow> gostring \<Rightarrow> gostring list" where
  "fields_from cur [] = (if cur = [] then [] else [cur])"
| "fields_from cur (c # cs) =
     (if IsSpace c then (if cur = [] then fields_from [] cs else cur # fields_from [] cs)
      else fields_from (cur @ [c]) cs)"

definition Fields :: "gostring \<Rightarrow> gostring list" where
  "Fields s = fields_from [] s"

text \<open>\<^verbatim>\<open>strings.Join\<close>.\<close>

fun Join :: "gostring list \<Rightarrow> gostring \<Rightarrow> gostring" where
  "Join [] sep = []"
| "Join [w] sep = w"
| "Join (w # ws) sep = w @ sep @ Join ws sep"

text \<open>\<^verbatim>\<open>strings.IndexAny\<close>: the index of the first rune of \<open>s\<close> that is one of
  \<open>chars\<close>, or \<open>-1\<close>.\<close>

definition IndexAny :: "gostring \<Rightarrow> gostring \<Rightarrow> int" where
  "IndexAny s chars =
     (if \<exists>c \<in> set s. c \<in> set chars then int (length (takeWhile (\<lambda>c. c \<notin> set chars) s))
      else -1)"

subsection \<open>The URL pattern\<close>

text \<open>
  \<^verbatim>\<open>urlRegex = regexp.MustCompile(`https?://[^\s]+`)\<close>. \<open>url_match s\<close> is the match
  anchored at the start of \<open>s\<close>: the matched text and what follows it. The repetition is
  greedy, so a match runs up to the next \<^verbatim>\<open>\s\<close> rune or the end of the string.
\<close>

definition url_scheme :: "gostring \<Rightarrow> gostring option" where
  "url_scheme s =
     (if take 8 s = asc ''https://'' then Some (drop 8 s)
      else if take 7 s = asc ''http://'' then Some (drop 7 s)
      else None)"

definition url_match :: "gostring \<Rightarrow> (gostring \<times> gostring) option" where
  "url_match s =
     (case url_scheme s of
        None \<Rightarrow> None
      | Some body \<Rightarrow>
          (case body of
             [] \<Rightarrow> None
           | c # _ \<Rightarrow>
               if re_space c then None
               else let rest = dropWhile (\<lambda>r. \<not> re_space r) body
                    in Some (take (length s - length rest) s, rest)))"

lemma take_eq_length: "take n s = xs \<Longrightarrow> length xs = n \<Longrightarrow> n \<le> length s"
  by (metis length_take min.cobounded1)

lemma url_scheme_shorter: "url_scheme s = Some body \<Longrightarrow> length body < length s"
  by (auto simp: url_scheme_def asc_def split: if_splits dest!: take_eq_length)

lemma url_match_shorter: "url_match s = Some (m, rest) \<Longrightarrow> length rest < length s"
proof -
  assume a: "url_match s = Some (m, rest)"
  then obtain body where b: "url_scheme s = Some body"
    by (auto simp: url_match_def split: option.splits)
  with a have "rest = dropWhile (\<lambda>r. \<not> re_space r) body"
    by (auto simp: url_match_def Let_def split: list.splits if_splits)
  then have "length rest \<le> length body"
    by (simp add: length_dropWhile_le)
  with url_scheme_shorter [OF b] show ?thesis by simp
qed

text \<open>\<^verbatim>\<open>urlRegex.ReplaceAllString(input, " ")\<close>: the matches are found left to right
  and do not overlap.\<close>

function RemoveURLs :: "gostring \<Rightarrow> gostring" where
  "RemoveURLs [] = []"
| "RemoveURLs (c # cs) =
     (case url_match (c # cs) of
        Some (m, rest) \<Rightarrow> 32 # RemoveURLs rest
      | None \<Rightarrow> c # RemoveURLs cs)"
  by pat_completeness auto
termination
  by (relation "measure length") (auto dest: url_match_shorter)

text \<open>\<^verbatim>\<open>urlRegex.FindAllString(input, -1)\<close>.\<close>

function FindAllURLs :: "gostring \<Rightarrow> gostring list" where
  "FindAllURLs [] = []"
| "FindAllURLs (c # cs) =
     (case url_match (c # cs) of
        Some (m, rest) \<Rightarrow> m # FindAllURLs rest
      | None \<Rightarrow> FindAllURLs cs)"
  by pat_completeness auto
termination
  by (relation "measure length") (auto dest: url_match_shorter)

section \<open>Title synthesis (processor.go)\<close>

definition GenerateTitleFromText :: "gostring \<Rightarrow> int \<Rightarrow> gostring" where
  "GenerateTitleFromText text maxWords =
     (if text = [] then []
      else
        let textWithoutURLs = RemoveURLs text;
            sentenceEnd = IndexAny textWithoutURLs (asc ''.!?'');
            firstSentence =
              (if sentenceEnd > 0 then TrimSpace (take (nat sentenceEnd) textWithoutURLs)
               else textWithoutURLs);
            words = Fields firstSentence
        in if length words = 0 then []
           else if maxWords > 0 \<and> int (length words) > maxWords
             then Join (take (nat maxWords) words) (asc '' '') @ asc ''...''
           else Join words (asc '' ''))"

text \<open>
  The algorithm in the words of the specification: strip URLs, take the prefix before the
  first of \<^verbatim>\<open>. ! ?\<close> (the whole string when there is none), trim, split into words,
  truncate to \<open>maxWords\<close> words with a \<^verbatim>\<open>...\<close> suffix, join with single spaces.
\<close>

definition is_terminator :: "rune \<Rightarrow> bool" where
  "is_terminator c = (c = 46 \<or> c = 33 \<or> c = 63)"

definition join_title :: "gostring list \<Rightarrow> int \<Rightarrow> gostring" where
  "join_title ws maxWords =
     (if maxWords > 0 \<and> int (length ws) > maxWords
      then Join (take (nat maxWords) ws) (asc '' '') @ asc ''...''
      else Join ws (asc '' ''))"

definition title_spec :: "gostring \<Rightarrow> int \<Rightarrow> gostring" where
  "title_spec text maxWords =
     join_title
       (Fields (TrimSpace (takeWhile (\<lambda>c. \<not> is_terminator c) (RemoveURLs text)))) maxWords"

text \<open>
  The same with the guard of the source: a terminator in first position does not end
  the sentence, the whole URL-free text is used instead.
\<close>

definition title_amended :: "gostring \<Rightarrow> int \<Rightarrow> gostring" where
  "title_amended text maxWords =
     (let s = RemoveURLs text;
          sentence = (case s of
                        [] \<Rightarrow> []
                      | c # _ \<Rightarrow> if is_terminator c then s
                                 else takeWhile (\<lambda>c. \<not> is_terminator c) s)
      in join_title (Fields (TrimSpace sentence)) maxWords)"

section \<open>De-duplication cache (package dedupe)\<close>

text \<open>
  An instant is a reading of \<^verbatim>\<open>time.Now()\<close> in nanoseconds; a \<^verbatim>\<open>time.Duration\<close> is a
  number of nanoseconds. The readings are passed to the operations that take them, so
  \<open>IsSeen c now k\<close> is the call \<^verbatim>\<open>c.IsSeen(k)\<close> during which the clock reads \<open>now\<close>.
  The mutex is not modelled: the calls of one cache are sequential. \<^verbatim>\<open>Sub\<close>, \<^verbatim>\<open>Add\<close> and
  \<^verbatim>\<open>Before\<close> are the difference, the sum and the order of the readings; the readings of a
  running process are far from the bounds of \<^verbatim>\<open>int64\<close> at which \<^verbatim>\<open>Sub\<close> saturates.

  The Go map \<^verbatim>\<open>items\<close> is an association list with one pair for each key, so
  \<^verbatim>\<open>len(c.items)\<close> is its length.
\<close>

type_synonym instant = int
type_synonym duration = int

record entry =
  key :: gostring
  ts :: instant

record Cache =
  items :: "(gostring \<times> instant) list"
  order :: "entry list"
  capacity :: int
  ttl :: duration

definition Hour :: duration where
  "Hour = 3600 * 1000000000"

definition NewCache :: "int \<Rightarrow> duration \<Rightarrow> Cache" where
  "NewCache cap d =
     \<lparr>items = [], order = [],
      capacity = (if cap \<le> 0 then 1 else cap),
      ttl = (if d \<le> 0 then Hour else d)\<rparr>"

definition IsSeen :: "Cache \<Rightarrow> instant \<Rightarrow> gostring \<Rightarrow> bool" where
  "IsSeen c now k =
     (case map_of (items c) k of
        Some t \<Rightarrow> now - t \<le> ttl c
      | None \<Rightarrow> False)"

text \<open>The loop of \<^verbatim>\<open>compact\<close>, on the map and the history it rewrites.\<close>

fun compact_loop ::
  "int \<Rightarrow> instant \<Rightarrow> (gostring \<times> instant) list \<Rightarrow> entry list
    \<Rightarrow> (gostring \<times> instant) list \<times> entry list" where
  "compact_loop cap cutoff its [] = (its, [])"
| "compact_loop cap cutoff its (oldest # rest) =
     (if int (length its) > cap \<or> ts oldest < cutoff
      then compact_loop cap cutoff
             (case map_of its (key oldest) of
                Some t \<Rightarrow> if t = ts oldest then AList.delete (key oldest) its else its
              | None \<Rightarrow> its)
             rest
      else (its, oldest # rest))"

definition compact :: "Cache \<Rightarrow> instant \<Rightarrow> Cache" where
  "compact c now =
     (let cutoff = now - ttl c;
          (its, ord) = compact_loop (capacity c) cutoff (items c) (order c)
      in c\<lparr>items := its, order := ord\<rparr>)"

definition MarkSeen :: "Cache \<Rightarrow> instant \<Rightarrow> gostring \<Rightarrow> Cache" where
  "MarkSeen c now k =
     compact (c\<lparr>items := AList.update k now (items c),
                order := order c @ [\<lparr>key = k, ts = now\<rparr>]\<rparr>) now"

text \<open>A sequence of calls, each with the clock reading it gets.\<close>

datatype call = MarkSeen_call gostring | IsSeen_call gostring

fun apply_call :: "Cache \<Rightarrow> instant \<times> call \<Rightarrow> Cache" where
  "apply_call c (now, MarkSeen_call k) = MarkSeen c now k"
| "apply_call c (now, IsSeen_call k) = c"

definition run_calls :: "Cache \<Rightarrow> (instant \<times> call) list \<Rightarrow> Cache" where
  "run_calls c calls = foldl apply_call c calls"

text \<open>Every entry of the map is at most \<open>ttl\<close> old at the instant \<open>now\<close>.\<close>

definition all_within_ttl :: "Cache \<Rightarrow> instant \<Rightarrow> bool" where
  "all_within_ttl c now = (\<forall>(k, t) \<in> set (items c). now - t \<le> ttl c)"

text \<open>
  The invariant of the representation: the keys of the map are distinct, every pair of
  the map has its history entry, and the history is in the order of the clock.
\<close>

definition backed :: "(gostring \<times> instant) list \<Rightarrow> entry list \<Rightarrow> bool" where
  "backed its ord = (\<forall>(k, t) \<in> set its. \<lparr>key = k, ts = t\<rparr> \<in> set ord)"

definition cache_inv :: "Cache \<Rightarrow> bool" where
  "cache_inv c =
     (distinct (map fst (items c)) \<and> backed (items c) (order c)
      \<and> sorted (map ts (order c)) \<and> 1 \<le> capacity c \<and> 0 < ttl c)"

section \<open>Text processing (processor.go)\<close>

text \<open>
  \<^verbatim>\<open>re.ReplaceAllString(s, " ")\<close> for a pattern \<^verbatim>\<open>[class]+\<close>: every maximal run of runes
  of the class becomes one space.
\<close>

function replace_runs :: "(rune \<Rightarrow> bool) \<Rightarrow> gostring \<Rightarrow> gostring" where
  "replace_runs P [] = []"
| "replace_runs P (c # cs) =
     (if P c then 32 # replace_runs P (dropWhile P cs) else c # replace_runs P cs)"
  by pat_completeness auto
termination
  by (relation "measure (\<lambda>(P, s). length s)") (auto simp: less_Suc_eq_le length_dropWhile_le)

text \<open>The class of \<^verbatim>\<open>punctuation = regexp.MustCompile(`[^\p{L}\p{N}\s]+`)\<close>.\<close>

definition punctuation :: "stdlib \<Rightarrow> rune \<Rightarrow> bool" where
  "punctuation L r = (\<not> IsLetter L r \<and> \<not> IsNumber L r \<and> \<not> re_space r)"

definition stopwords :: "gostring list" where
  "stopwords =
     [[1080], [1074], [1085, 1072], [1089], [1087, 1086], [1082],
      asc ''a'', asc ''an'', asc ''the'', asc ''to'', asc ''in'', asc ''for'',
      [1095, 1090, 1086], [1082, 1072, 1082], [1101, 1090, 1086],
      [1080, 1079], [1086, 1090], [1076, 1086]]"

text \<open>The loop of \<^verbatim>\<open>ExtractURLs\<close>; \<open>urls\<close> holds the keys of \<^verbatim>\<open>seen\<close> in order.\<close>

fun dedupe_urls :: "gostring list \<Rightarrow> gostring list \<Rightarrow> gostring list" where
  "dedupe_urls [] urls = urls"
| "dedupe_urls (url # rest) urls =
     (if url \<in> set urls then dedupe_urls rest urls else dedupe_urls rest (urls @ [url]))"

definition ExtractURLs :: "gostring \<Rightarrow> gostring list" where
  "ExtractURLs input =
     (if input = [] then []
      else let matches = FindAllURLs input
           in if length matches = 0 then [] else dedupe_urls matches [])"

definition CleanText :: "stdlib \<Rightarrow> gostring \<Rightarrow> gostring" where
  "CleanText L input =
     (if input = [] then []
      else
        let decoded = UnescapeString L input;
            decoded = RemoveURLs decoded;
            decoded = replace_runs (punctuation L) decoded;
            decoded = replace_runs re_space decoded;
            decoded = TrimSpace decoded
        in decoded)"

text \<open>
  The counting loop of \<^verbatim>\<open>ExtractKeywords\<close>. The map \<^verbatim>\<open>freq\<close> is an association list
  with one pair for each key; a key that is absent reads as 0.
\<close>

fun count_tokens ::
  "stdlib \<Rightarrow> int \<Rightarrow> gostring list \<Rightarrow> (gostring \<times> int) list \<Rightarrow> (gostring \<times> int) list" where
  "count_tokens L minLen [] freq = freq"
| "count_tokens L minLen (token # rest) freq =
     (let token = TrimFunc token (\<lambda>r. \<not> IsLetter L r \<and> \<not> IsNumber L r)
      in if int (length token) < minLen then count_tokens L minLen rest freq
         else if token \<in> set stopwords then count_tokens L minLen rest freq
         else count_tokens L minLen rest
                (AList.update token
                   ((case map_of freq token of Some n \<Rightarrow> n | None \<Rightarrow> 0) + 1) freq))"

text \<open>
  The comparison given to \<^verbatim>\<open>sort.Slice\<close>. Go compares strings byte by byte, which on
  UTF-8 is the lexicographic order of the code points. The pairs have distinct words,
  so the comparison is a strict linear order on them and every sorting algorithm
  returns the same list; insertion sort stands for \<^verbatim>\<open>sort.Slice\<close>.
\<close>

definition kv_less :: "gostring \<times> int \<Rightarrow> gostring \<times> int \<Rightarrow> bool" where
  "kv_less p q = (if snd p = snd q then fst p < fst q else snd p > snd q)"

fun insert_kv :: "gostring \<times> int \<Rightarrow> (gostring \<times> int) list \<Rightarrow> (gostring \<times> int) list" where
  "insert_kv x [] = [x]"
| "insert_kv x (y # ys) = (if kv_less x y then x # y # ys else y # insert_kv x ys)"

fun sort_Slice :: "(gostring \<times> int) list \<Rightarrow> (gostring \<times> int) list" where
  "sort_Slice [] = []"
| "sort_Slice (x # xs) = insert_kv x (sort_Slice xs)"

definition ExtractKeywords :: "stdlib \<Rightarrow> gostring \<Rightarrow> int \<Rightarrow> int \<Rightarrow> gostring list" where
  "ExtractKeywords L text limit minLen =
     (let clean = map (ToLower L) (CleanText L text)
      in if clean = [] then []
         else
           let freq = count_tokens L minLen (Fields clean) []
           in if length freq = 0 then []
              else
                let pairs = sort_Slice freq;
                    max = (if limit \<le> 0 \<or> limit > int (length pairs)
                           then int (length pairs) else limit)
                in map fst (take (nat max) pairs))"

text \<open>
  For the statement of the postcondition: the tokens the loop counts (trimmed, long
  enough, no stop-word), with repetitions, in the order of the text.
\<close>

definition counted_tokens :: "stdlib \<Rightarrow> int \<Rightarrow> gostring list \<Rightarrow> gostring list" where
  "counted_tokens L minLen tokens =
     filter (\<lambda>t. \<not> int (length t) < minLen \<and> t \<notin> set stopwords)
       (map (\<lambda>t. TrimFunc t (\<lambda>r. \<not> IsLetter L r \<and> \<not> IsNumber L r)) tokens)"

definition text_tokens :: "stdlib \<Rightarrow> gostring \<Rightarrow> int \<Rightarrow> gostring list" where
  "text_tokens L text minLen = counted_tokens L minLen (Fields (map (ToLower L) (CleanText L text)))"

text \<open>\<open>ranks_before n a b\<close>: \<open>a\<close> comes before \<open>b\<close> by count descending, then word
  ascending, where \<open>n w\<close> is the count of \<open>w\<close>.\<close>

definition ranks_before :: "(gostring \<Rightarrow> nat) \<Rightarrow> gostring \<Rightarrow> gostring \<Rightarrow> bool" where
  "ranks_before n a b = (n a > n b \<or> (n a = n b \<and> a < b))"

text \<open>
  A small instance of the library parameters, to evaluate the functions on examples:
  ASCII and Cyrillic letters, ASCII digits, the entity \<^verbatim>\<open>&amp;\<close>.
\<close>

definition sample_IsLetter :: "rune \<Rightarrow> bool" where
  "sample_IsLetter r = ((65 \<le> r \<and> r \<le> 90) \<or> (97 \<le> r \<and> r \<le> 122) \<or> (1040 \<le> r \<and> r \<le> 1103))"

definition sample_IsNumber :: "rune \<Rightarrow> bool" where
  "sample_IsNumber r = (48 \<le> r \<and> r \<le> 57)"

definition sample_ToLower :: "rune \<Rightarrow> rune" where
  "sample_ToLower r =
     (if (65 \<le> r \<and> r \<le> 90) \<or> (1040 \<le> r \<and> r \<le> 1071) then r + 32 else r)"

fun sample_Unescape :: "gostring \<Rightarrow> gostring" where
  "sample_Unescape [] = []"
| "sample_Unescape (c # cs) =
     (if c = 38 \<and> take 4 cs = asc ''amp;'' then 38 # sample_Unescape (drop 4 cs)
      else c # sample_Unescape cs)"

text \<open>
  A string is squeezed for a class when every rune of the class in it is a space that
  is not followed by another rune of the class: the shape \<open>replace_runs\<close> leaves.
\<close>

fun squeezed :: "(rune \<Rightarrow> bool) \<Rightarrow> gostring \<Rightarrow> bool" where
  "squeezed P [] = True"
| "squeezed P [c] = (P c \<longrightarrow> c = 32)"
| "squeezed P (c # d # r) = ((P c \<longrightarrow> c = 32 \<and> \<not> P d) \<and> squeezed P (d # r))"

section \<open>Document identity (processor.go)\<close>

subsection \<open>\<^verbatim>\<open>ts.UTC().Format(time.RFC3339)\<close>\<close>

text \<open>
  The civil date of a day number (days since 1970-01-01) in the proleptic Gregorian
  calendar, as year, month and day.
\<close>

definition civil_from_days :: "int \<Rightarrow> int \<times> int \<times> int" where
  "civil_from_days days =
     (let z = days + 719468;
          era = z div 146097;
          doe = z mod 146097;
          yoe = (doe - doe div 1460 + doe div 36524 - doe div 146096) div 365;
          doy = doe - (365 * yoe + yoe div 4 - yoe div 100);
          mp = (5 * doy + 2) div 153;
          d = doy - (153 * mp + 2) div 5 + 1;
          m = (if mp < 10 then mp + 3 else mp - 9);
          y = yoe + era * 400
      in (if m \<le> 2 then y + 1 else y, m, d))"

function decimal :: "nat \<Rightarrow> gostring" where
  "decimal n = (if n < 10 then [48 + int n] else decimal (n div 10) @ [48 + int (n mod 10)])"
  by pat_completeness auto
termination
  by (relation "measure id") auto

text \<open>\<^verbatim>\<open>appendInt(b, x, width)\<close> of package time: sign, then at least \<open>width\<close> digits.\<close>

definition appendInt :: "int \<Rightarrow> nat \<Rightarrow> gostring" where
  "appendInt x width =
     (let ds = decimal (nat \<bar>x\<bar>)
      in (if x < 0 then [45] else []) @ replicate (width - length ds) 48 @ ds)"

definition Format_RFC3339_UTC :: "Time \<Rightarrow> gostring" where
  "Format_RFC3339_UTC t =
     (let secs = nanos t div 1000000000;
          (y, m, d) = civil_from_days (secs div 86400);
          sod = secs mod 86400
      in appendInt y 4 @ [45] @ appendInt m 2 @ [45] @ appendInt d 2 @ [84]
         @ appendInt (sod div 3600) 2 @ [58] @ appendInt (sod mod 3600 div 60) 2 @ [58]
         @ appendInt (sod mod 60) 2 @ [90])"

subsection \<open>The bytes of a string\<close>

text \<open>
  A byte is an integer from 0 to 255, a 32-bit word an integer from 0 to \<open>2^32 - 1\<close>;
  sums and shifts are reduced modulo \<open>2^32\<close> where \<^verbatim>\<open>uint32\<close> arithmetic wraps around.
\<close>

type_synonym byte = int
type_synonym word32 = int

text \<open>UTF-8, as \<^verbatim>\<open>utf8.AppendRune\<close> writes it: a rune that is not a Unicode scalar
  value is written as U+FFFD.\<close>

definition utf8_rune :: "rune \<Rightarrow> byte list" where
  "utf8_rune r =
     (if 0 \<le> r \<and> r < 128 then [r]
      else if 128 \<le> r \<and> r < 2048 then [192 + r div 64, 128 + r mod 64]
      else if (2048 \<le> r \<and> r < 55296) \<or> (57344 \<le> r \<and> r < 65536) then
        [224 + r div 4096, 128 + r div 64 mod 64, 128 + r mod 64]
      else if 65536 \<le> r \<and> r \<le> 1114111 then
        [240 + r div 262144, 128 + r div 4096 mod 64, 128 + r div 64 mod 64, 128 + r mod 64]
      else [239, 191, 189])"

definition bytes_of :: "gostring \<Rightarrow> byte list" where
  "bytes_of s = concat (map utf8_rune s)"

subsection \<open>\<^verbatim>\<open>sha1.Sum\<close> and \<^verbatim>\<open>hex.EncodeToString\<close>\<close>

type_synonym sha1_state = "word32 \<times> word32 \<times> word32 \<times> word32 \<times> word32"

definition add32 :: "word32 \<Rightarrow> word32 \<Rightarrow> word32" where
  "add32 x y = (x + y) mod 4294967296"

definition not32 :: "word32 \<Rightarrow> word32" where
  "not32 x = 4294967295 - x"

definition rotl32 :: "nat \<Rightarrow> word32 \<Rightarrow> word32" where
  "rotl32 n w = (w * 2 ^ n) mod 4294967296 OR w div 2 ^ (32 - n)"

definition be64 :: "int \<Rightarrow> byte list" where
  "be64 n = map (\<lambda>i. n div 256 ^ i mod 256) [7, 6, 5, 4, 3, 2, 1, 0]"

function zeros :: "int \<Rightarrow> byte list" where
  "zeros n = (if n \<le> 0 then [] else 0 # zeros (n - 1))"
  by pat_completeness auto
termination
  by (relation "measure nat") auto

text \<open>Padding: the byte \<^verbatim>\<open>0x80\<close>, zeros up to 56 modulo 64, the length in bits.\<close>

definition sha1_pad :: "byte list \<Rightarrow> byte list" where
  "sha1_pad m =
     m @ [128] @ zeros ((119 - int (length m)) mod 64) @ be64 (8 * int (length m))"

text \<open>The sixteen big-endian words of a block.\<close>

fun block_words :: "byte list \<Rightarrow> word32 list" where
  "block_words (a # b # c # d # rest) =
     (a * 16777216 + b * 65536 + c * 256 + d) # block_words rest"
| "block_words _ = []"

text \<open>The message schedule, most recent word first: \<open>expand n\<close> adds \<open>n\<close> words.\<close>

function expand :: "int \<Rightarrow> word32 list \<Rightarrow> word32 list" where
  "expand n ws =
     (if n \<le> 0 then ws
      else expand (n - 1) (rotl32 1 (ws ! 2 XOR ws ! 7 XOR ws ! 13 XOR ws ! 15) # ws))"
  by pat_completeness auto
termination
  by (relation "measure (\<lambda>(n, ws). nat n)") auto

definition schedule :: "byte list \<Rightarrow> word32 list" where
  "schedule block = rev (expand 64 (rev (block_words block)))"

definition sha1_f :: "int \<Rightarrow> word32 \<Rightarrow> word32 \<Rightarrow> word32 \<Rightarrow> word32" where
  "sha1_f t b c d =
     (if t < 20 then (b AND c) OR (not32 b AND d)
      else if t < 40 then b XOR c XOR d
      else if t < 60 then (b AND c) OR (b AND d) OR (c AND d)
      else b XOR c XOR d)"

definition sha1_k :: "int \<Rightarrow> word32" where
  "sha1_k t =
     (if t < 20 then 0x5A827999 else if t < 40 then 0x6ED9EBA1
      else if t < 60 then 0x8F1BBCDC else 0xCA62C1D6)"

fun rounds :: "int \<Rightarrow> word32 list \<Rightarrow> sha1_state \<Rightarrow> sha1_state" where
  "rounds t [] s = s"
| "rounds t (w # ws) (a, b, c, d, e) =
     rounds (t + 1) ws
       (add32 (add32 (add32 (add32 (rotl32 5 a) (sha1_f t b c d)) e) (sha1_k t)) w,
        a, rotl32 30 b, c, d)"

definition compress :: "sha1_state \<Rightarrow> byte list \<Rightarrow> sha1_state" where
  "compress h block =
     (case h of (h0, h1, h2, h3, h4) \<Rightarrow>
        (case rounds 0 (schedule block) h of (a, b, c, d, e) \<Rightarrow>
           (add32 h0 a, add32 h1 b, add32 h2 c, add32 h3 d, add32 h4 e)))"

text \<open>The padded message is consumed in blocks of 64 bytes.\<close>

function sha1_blocks :: "sha1_state \<Rightarrow> byte list \<Rightarrow> sha1_state" where
  "sha1_blocks h [] = h"
| "sha1_blocks h (b # bs) = sha1_blocks (compress h (take 64 (b # bs))) (drop 64 (b # bs))"
  by pat_completeness auto
termination
  by (relation "measure (\<lambda>(h, bs). length bs)") auto

definition be_bytes :: "word32 \<Rightarrow> byte list" where
  "be_bytes w = [w div 16777216 mod 256, w div 65536 mod 256, w div 256 mod 256, w mod 256]"

definition sha1_Sum :: "byte list \<Rightarrow> byte list" where
  "sha1_Sum m =
     (case sha1_blocks (0x67452301, 0xEFCDAB89, 0x98BADCFE, 0x10325476, 0xC3D2E1F0) (sha1_pad m)
      of (h0, h1, h2, h3, h4) \<Rightarrow> concat (map be_bytes [h0, h1, h2, h3, h4]))"

definition hexdigit :: "int \<Rightarrow> rune" where
  "hexdigit n = (if n < 10 then 48 + n else 87 + n)"

definition EncodeToString :: "byte list \<Rightarrow> gostring" where
  "EncodeToString bs = concat (map (\<lambda>b. [hexdigit (b div 16), hexdigit (b mod 16)]) bs)"

definition BuildDocumentID :: "gostring \<Rightarrow> gostring \<Rightarrow> Time \<Rightarrow> gostring" where
  "BuildDocumentID title text t =
     EncodeToString (sha1_Sum (bytes_of (title @ asc ''|'' @ text @ asc ''|'' @ Format_RFC3339_UTC t)))"

definition is_lower_hex :: "rune \<Rightarrow> bool" where
  "is_lower_hex c = ((48 \<le> c \<and> c \<le> 57) \<or> (97 \<le> c \<and> c \<le> 102))"

section \<open>Worker (worker/main.go)\<close>

text \<open>The fields of \<^verbatim>\<open>config.Worker\<close> and of \<^verbatim>\<open>kafka.Message\<close> that \<^verbatim>\<open>processMessage\<close> reads.\<close>

record Worker =
  KeywordLimit :: int
  KeywordMinLength :: int

record Message =
  Value :: "byte list"

text \<open>The zero \<^verbatim>\<open>time.Time\<close> is January 1, year 1, 00:00:00 UTC.\<close>

definition zero_Time :: Time where
  "zero_Time = \<lparr>nanos = - 62135596800 * 1000000000, offset = 0\<rparr>"

definition IsZero :: "Time \<Rightarrow> bool" where
  "IsZero t = (nanos t = - 62135596800 * 1000000000)"

text \<open>The loop of \<^verbatim>\<open>parseTimestamp\<close> over the layouts.\<close>

fun try_formats :: "stdlib \<Rightarrow> layout list \<Rightarrow> gostring \<Rightarrow> Time" where
  "try_formats L [] raw = zero_Time"
| "try_formats L (f # fs) raw =
     (case time_Parse L f raw of Some t \<Rightarrow> t | None \<Rightarrow> try_formats L fs raw)"

definition parseTimestamp :: "stdlib \<Rightarrow> gostring \<Rightarrow> Time" where
  "parseTimestamp L raw =
     (let raw = TrimSpace raw
      in if raw = [] then zero_Time else try_formats L [RFC3339Nano, RFC3339, Legacy] raw)"

text \<open>
  What the environment returns to one call of \<^verbatim>\<open>processMessage\<close>: the readings of
  \<^verbatim>\<open>time.Now()\<close> in \<^verbatim>\<open>processMessage\<close> itself, in \<^verbatim>\<open>IsSeen\<close> and in \<^verbatim>\<open>MarkSeen\<close>, in
  nanoseconds since the Unix epoch, and the string \<^verbatim>\<open>uuid.NewString()\<close> would give.
\<close>

record readings =
  now_fallback :: instant
  now_IsSeen :: instant
  now_MarkSeen :: instant
  uuid_NewString :: gostring

text \<open>
  The state \<^verbatim>\<open>processMessage\<close> works on: the cache, and the documents handed to
  \<^verbatim>\<open>IndexNews\<close> so far, one for each call. The indexer is a function from the document
  to the error it returns, if any.
\<close>

record worker_state =
  cache :: Cache
  index_calls :: "NewsDocument list"

datatype error = Unmarshal_error | Empty_payload | Index_error gostring

definition processMessage ::
  "stdlib \<Rightarrow> (NewsDocument \<Rightarrow> gostring option) \<Rightarrow> Worker \<Rightarrow> readings \<Rightarrow> worker_state
    \<Rightarrow> Message \<Rightarrow> error option \<times> worker_state" where
  "processMessage L IndexNews cfg env st msg =
     (case json_Unmarshal L (Value msg) of
        None \<Rightarrow> (Some Unmarshal_error, st)
      | Some payload \<Rightarrow>
          let title = TrimSpace (rawNews.Title payload);
              text = TrimSpace (rawNews.Text payload);
              urls = ExtractURLs text
          in if title = [] \<and> text = [] then (Some Empty_payload, st)
             else
               let title = (if title = [] \<and> text \<noteq> [] then GenerateTitleFromText text 10
                            else title);
                   t = parseTimestamp L (rawNews.Timestamp payload);
                   t = (if IsZero t then \<lparr>nanos = now_fallback env, offset = 0\<rparr> else t);
                   cleanedText = CleanText L text;
                   keywords = ExtractKeywords L (title @ asc '' '' @ cleanedText)
                                (KeywordLimit cfg) (KeywordMinLength cfg);
                   source = TrimSpace (rawNews.Source payload);
                   source = (if source = [] then asc ''unknown'' else source);
                   doc = \<lparr>ID = BuildDocumentID title cleanedText t, Title = title, Text = text,
                          Timestamp = t, Keywords = keywords, Source = source, URLs = urls\<rparr>;
                   doc = (if ID doc = [] then doc\<lparr>ID := uuid_NewString env\<rparr> else doc)
               in if IsSeen (cache st) (now_IsSeen env) (ID doc) then (None, st)
                  else
                    (case IndexNews doc of
                       Some err \<Rightarrow>
                         (Some (Index_error err), st\<lparr>index_calls := index_calls st @ [doc]\<rparr>)
                     | None \<Rightarrow>
                         (None,
                          st\<lparr>cache := MarkSeen (cache st) (now_MarkSeen env) (ID doc),
                             index_calls := index_calls st @ [doc]\<rparr>)))"

text \<open>
  The document \<^verbatim>\<open>processMessage\<close> builds from a decoded payload that is not empty
  (lines 163 to 200), for the statements about it.
\<close>

definition built_document :: "stdlib \<Rightarrow> Worker \<Rightarrow> readings \<Rightarrow> rawNews \<Rightarrow> NewsDocument" where
  "built_document L cfg env payload =
     (let title = TrimSpace (rawNews.Title payload);
          text = TrimSpace (rawNews.Text payload);
          urls = ExtractURLs text;
          title = (if title = [] \<and> text \<noteq> [] then GenerateTitleFromText text 10 else title);
          t = parseTimestamp L (rawNews.Timestamp payload);
          t = (if IsZero t then \<lparr>nanos = now_fallback env, offset = 0\<rparr> else t);
          cleanedText = CleanText L text;
          keywords = ExtractKeywords L (title @ asc '' '' @ cleanedText)
                       (KeywordLimit cfg) (KeywordMinLength cfg);
          source = TrimSpace (rawNews.Source payload);
          source = (if source = [] then asc ''unknown'' else source);
          doc = \<lparr>ID = BuildDocumentID title cleanedText t, Title = title, Text = text,
                 Timestamp = t, Keywords = keywords, Source = source, URLs = urls\<rparr>
      in if ID doc = [] then doc\<lparr>ID := uuid_NewString env\<rparr> else doc)"

text \<open>An indexer that succeeds, as the test double \<^verbatim>\<open>stubIndexer\<close> does.\<close>

definition stubIndexer :: "NewsDocument \<Rightarrow> gostring option" where
  "stubIndexer doc = None"

subsection \<open>An instance of the library parameters, for examples\<close>

text \<open>
  Three messages (the bytes of their JSON text) and what \<^verbatim>\<open>json.Unmarshal\<close> decodes
  them to: one with title \<^verbatim>\<open>Hot tour\<close>, text \<^verbatim>\<open>Sea and sun\<close>, timestamp
  \<^verbatim>\<open>2024-01-02T15:04:05Z\<close> and source \<^verbatim>\<open>rss\<close>; one with title \<^verbatim>\<open>t\<close>, text \<^verbatim>\<open>x\<close>
  and an empty timestamp; one with an empty title and the text \<^verbatim>\<open>https://example.com\<close>.
\<close>

definition dated_message :: Message where
  "dated_message = \<lparr>Value =
     [123, 34, 116, 105, 116, 108, 101, 34, 58, 34, 72, 111, 116, 32, 116, 111, 117,
     114, 34, 44, 34, 116, 101, 120, 116, 34, 58, 34, 83, 101, 97, 32, 97, 110, 100, 32,
     115, 117, 110, 34, 44, 34, 116, 105, 109, 101, 115, 116, 97, 109, 112, 34, 58, 34,
     50, 48, 50, 52, 45, 48, 49, 45, 48, 50, 84, 49, 53, 58, 48, 52, 58, 48, 53, 90, 34,
     44, 34, 115, 111, 117, 114, 99, 101, 34, 58, 34, 114, 115, 115, 34, 125]\<rparr>"

definition undated_message :: Message where
  "undated_message = \<lparr>Value =
     [123, 34, 116, 105, 116, 108, 101, 34, 58, 34, 116, 34, 44, 34, 116, 101, 120, 116,
     34, 58, 34, 120, 34, 44, 34, 116, 105, 109, 101, 115, 116, 97, 109, 112, 34, 58,
     34, 34, 125]\<rparr>"

definition url_only_message :: Message where
  "url_only_message = \<lparr>Value =
     [123, 34, 116, 105, 116, 108, 101, 34, 58, 34, 34, 44, 34, 116, 101, 120, 116, 34,
     58, 34, 104, 116, 116, 112, 115, 58, 47, 47, 101, 120, 97, 109, 112, 108, 101, 46,
     99, 111, 109, 34, 125]\<rparr>"

definition sample_Unmarshal :: "int list \<Rightarrow> rawNews option" where
  "sample_Unmarshal v =
     (if v = Value dated_message then
        Some \<lparr>rawNews.Title = asc ''Hot tour'', rawNews.Text = asc ''Sea and sun'',
              rawNews.Timestamp = asc ''2024-01-02T15:04:05Z'', rawNews.Source = asc ''rss''\<rparr>
      else if v = Value undated_message then
        Some \<lparr>rawNews.Title = asc ''t'', rawNews.Text = asc ''x'', rawNews.Timestamp = [], rawNews.Source = []\<rparr>
      else if v = Value url_only_message then
        Some \<lparr>rawNews.Title = [], rawNews.Text = asc ''https://example.com'', rawNews.Timestamp = [], rawNews.Source = []\<rparr>
      else None)"

definition sample_Parse :: "layout \<Rightarrow> gostring \<Rightarrow> Time option" where
  "sample_Parse f raw =
     (if f \<noteq> Legacy \<and> raw = asc ''2024-01-02T15:04:05Z''
      then Some \<lparr>nanos = 1704207845 * 1000000000, offset = 0\<rparr> else None)"

definition sample_lib :: stdlib where
  "sample_lib =
     \<lparr>IsLetter = sample_IsLetter, IsNumber = sample_IsNumber, ToLower = sample_ToLower,
      UnescapeString = sample_Unescape, json_Unmarshal = sample_Unmarshal,
      time_Parse = sample_Parse\<rparr>"

text \<open>
  The defaults of \<^verbatim>\<open>config.LoadWorker\<close>, the state of a worker that has just started, and
  the readings of a call that starts at the instant \<open>t\<close>.
\<close>

definition sample_cfg :: Worker where
  "sample_cfg = \<lparr>KeywordLimit = 8, KeywordMinLength = 4\<rparr>"

definition fresh_state :: worker_state where
  "fresh_state = \<lparr>cache = NewCache 20000 (24 * Hour), index_calls = []\<rparr>"

definition readings_at :: "instant \<Rightarrow> readings" where
  "readings_at t =
     \<lparr>now_fallback = t, now_IsSeen = t + 1000, now_MarkSeen = t + 2000,
      uuid_NewString = asc ''00000000-0000-4000-8000-000000000000''\<rparr>"

section \<open>Search-index client (package elasticsearch)\<close>

text \<open>
  The request body is a tree of \<^verbatim>\<open>map[string]any\<close>, slices, strings, integers and
  booleans. A map is an association list with one pair for each key, built by the
  assignments of the source in their order.
\<close>

datatype json =
    JString gostring
  | JInt int
  | JBool bool
  | JArray "json list"
  | JObject "(gostring \<times> json) list"

record SearchParams =
  Query :: gostring
  Keywords :: "gostring list"
  Source :: gostring
  From :: int
  Size :: int
  Sort :: gostring
  Start :: "Time option"
  End :: "Time option"

record SearchResult =
  Total :: int
  Items :: "NewsDocument list"

text \<open>\<^verbatim>\<open>strings.Split(s, sep)\<close> for a separator of one character.\<close>

fun split_from :: "rune \<Rightarrow> gostring \<Rightarrow> gostring \<Rightarrow> gostring list" where
  "split_from sep cur [] = [cur]"
| "split_from sep cur (c # cs) =
     (if c = sep then cur # split_from sep [] cs else split_from sep (cur @ [c]) cs)"

definition Split :: "gostring \<Rightarrow> rune \<Rightarrow> gostring list" where
  "Split s sep = split_from sep [] s"

text \<open>The clauses of the query.\<close>

definition multi_match_clause :: "gostring \<Rightarrow> json" where
  "multi_match_clause q =
     JObject [(asc ''multi_match'',
       JObject (AList.update (asc ''fields'') (JArray [JString (asc ''title^2''), JString (asc ''text'')])
                 (AList.update (asc ''query'') (JString q) [])))]"

definition terms_clause :: "gostring list \<Rightarrow> json" where
  "terms_clause ks = JObject [(asc ''terms'', JObject [(asc ''keywords'', JArray (map JString ks))])]"

definition term_clause :: "gostring \<Rightarrow> json" where
  "term_clause s = JObject [(asc ''term'', JObject [(asc ''source'', JString s)])]"

definition rangeQuery :: "Time option \<Rightarrow> Time option \<Rightarrow> (gostring \<times> json) list" where
  "rangeQuery start stop =
     (let r = [];
          r = (case start of
                 Some t \<Rightarrow> AList.update (asc ''gte'') (JString (Format_RFC3339_UTC t)) r
               | None \<Rightarrow> r);
          r = (case stop of
                 Some t \<Rightarrow> AList.update (asc ''lte'') (JString (Format_RFC3339_UTC t)) r
               | None \<Rightarrow> r)
      in r)"

definition range_clause :: "Time option \<Rightarrow> Time option \<Rightarrow> json" where
  "range_clause start stop =
     JObject [(asc ''range'', JObject [(asc ''timestamp'', JObject (rangeQuery start stop))])]"

definition match_all_clause :: json where
  "match_all_clause = JObject [(asc ''match_all'', JObject [])]"

text \<open>The request body \<^verbatim>\<open>SearchNews\<close> builds (lines 245 to 336 of the client).\<close>

definition search_body :: "SearchParams \<Rightarrow> json" where
  "search_body params =
     (let size = (if Size params \<le> 0 then 20 else Size params);
          size = (if size > 200 then 200 else size);
          from = (if From params < 0 then 0 else From params);
          must = (if Query params \<noteq> [] then [multi_match_clause (Query params)] else []);
          filters = [];
          filters = (if length (Keywords params) > 0
                     then filters @ [terms_clause (Keywords params)] else filters);
          filters = (if Source params \<noteq> []
                     then filters @ [term_clause (Source params)] else filters);
          filters = (if Start params \<noteq> None \<or> End params \<noteq> None
                     then filters @ [range_clause (Start params) (End params)] else filters);
          boolQuery = [];
          boolQuery = (if length must > 0
                       then AList.update (asc ''must'') (JArray must) boolQuery else boolQuery);
          boolQuery = (if length filters > 0
                       then AList.update (asc ''filter'') (JArray filters) boolQuery else boolQuery);
          boolQuery = (if length must = 0 \<and> length filters = 0
                       then AList.update (asc ''must'') (JArray [match_all_clause]) boolQuery
                       else boolQuery);
          body = [(asc ''from'', JInt from), (asc ''size'', JInt size),
                  (asc ''track_total_hits'', JBool True),
                  (asc ''query'', JObject [(asc ''bool'', JObject boolQuery)])];
          sortField = (if Sort params = [] then asc ''timestamp:desc'' else Sort params);
          parts = Split sortField 58;
          field = (case parts of [] \<Rightarrow> [] | f # _ \<Rightarrow> f);
          field = (if field = [] then asc ''timestamp'' else field);
          ord = (case parts of _ # dir # _ \<Rightarrow> if dir \<noteq> [] then dir else asc ''desc''
                            | _ \<Rightarrow> asc ''desc'')
      in JObject (AList.update (asc ''sort'')
                    (JArray [JObject [(field, JObject [(asc ''order'', JString ord)])]]) body))"

text \<open>
  The rest of \<^verbatim>\<open>SearchNews\<close> sends the body and decodes the response. The index is a
  function from the body to the error or the result that comes back.
\<close>

definition SearchNews :: "(json \<Rightarrow> gostring + SearchResult) \<Rightarrow> SearchParams \<Rightarrow> gostring + SearchResult" where
  "SearchNews es_Search params = es_Search (search_body params)"

text \<open>Reading a body: the value under a key, and the clauses of an array.\<close>

fun member :: "json \<Rightarrow> gostring \<Rightarrow> json option" where
  "member (JObject kvs) k = map_of kvs k"
| "member _ k = None"

fun elements :: "json option \<Rightarrow> json list" where
  "elements (Some (JArray xs)) = xs"
| "elements _ = []"

definition bool_query :: "json \<Rightarrow> json" where
  "bool_query body =
     (case member body (asc ''query'') of
        Some q \<Rightarrow> (case member q (asc ''bool'') of Some b \<Rightarrow> b | None \<Rightarrow> JObject [])
      | None \<Rightarrow> JObject [])"

definition has_key :: "gostring \<Rightarrow> json \<Rightarrow> bool" where
  "has_key k j = (member j k \<noteq> None)"

text \<open>The value at the end of a path of keys, and the keys of an object.\<close>

fun json_at :: "json \<Rightarrow> gostring list \<Rightarrow> json option" where
  "json_at j [] = Some j"
| "json_at j (k # ks) = (case member j k of Some v \<Rightarrow> json_at v ks | None \<Rightarrow> None)"

fun keys_of :: "json option \<Rightarrow> gostring set" where
  "keys_of (Some (JObject kvs)) = fst ` set kvs"
| "keys_of _ = {}"

section \<open>HTTP search surface (api/main.go)\<close>

record API =
  DefaultPage :: int
  MaxPage :: int

text \<open>
  \<^verbatim>\<open>strconv.Atoi\<close> on a 64-bit platform: an optional sign, then one or more ASCII digits;
  an error, here \<open>None\<close>, for any other text and for a value outside the range of
  \<^verbatim>\<open>int\<close>.
\<close>

definition is_digit :: "rune \<Rightarrow> bool" where
  "is_digit c = (48 \<le> c \<and> c \<le> 57)"

definition decimal_value :: "gostring \<Rightarrow> int" where
  "decimal_value ds = foldl (\<lambda>n c. 10 * n + (c - 48)) 0 ds"

definition Atoi :: "gostring \<Rightarrow> int option" where
  "Atoi s =
     (let neg = (case s of c # _ \<Rightarrow> c = 45 | [] \<Rightarrow> False);
          ds = (case s of c # cs \<Rightarrow> if c = 45 \<or> c = 43 then cs else s | [] \<Rightarrow> [])
      in if ds = [] \<or> \<not> list_all is_digit ds then None
         else
           let v = (if neg then - decimal_value ds else decimal_value ds)
           in if v < - 9223372036854775808 \<or> 9223372036854775807 < v then None else Some v)"

definition clampInt :: "gostring \<Rightarrow> int \<Rightarrow> int \<Rightarrow> int" where
  "clampInt raw fallback maxv =
     (if raw = [] then fallback
      else
        (case Atoi raw of
           None \<Rightarrow> fallback
         | Some v \<Rightarrow> if v \<le> 0 then fallback else if v > maxv then maxv else v))"

definition parseTime :: "stdlib \<Rightarrow> gostring \<Rightarrow> Time option" where
  "parseTime L raw =
     (let raw = TrimSpace raw
      in if raw = [] then None else time_Parse L RFC3339 raw)"

definition parseCSV :: "gostring \<Rightarrow> gostring list" where
  "parseCSV raw =
     (if raw = [] then []
      else filter (\<lambda>trimmed. trimmed \<noteq> []) (map TrimSpace (Split raw 44)))"

text \<open>
  A request is what \<^verbatim>\<open>r.URL.Query().Get\<close> returns for each parameter name, the empty
  string for a parameter that is missing. \<open>search_params\<close> is the first part of
  \<^verbatim>\<open>handleSearch\<close> (lines 101 to 125), the parameters it hands to \<^verbatim>\<open>SearchNews\<close>.
\<close>

definition search_params :: "stdlib \<Rightarrow> API \<Rightarrow> (gostring \<Rightarrow> gostring) \<Rightarrow> SearchParams" where
  "search_params L cfg get =
     \<lparr>Query = TrimSpace (get (asc ''q'')),
      Keywords = parseCSV (get (asc ''keywords'')),
      Source = TrimSpace (get (asc ''source'')),
      From = clampInt (get (asc ''from'')) 0 10000,
      Size = clampInt (get (asc ''size'')) (DefaultPage cfg) (MaxPage cfg),
      Sort = TrimSpace (get (asc ''sort'')),
      Start = parseTime L (get (asc ''start'')),
      End = parseTime L (get (asc ''end''))\<rparr>"

text \<open>The response: the status and the payload \<^verbatim>\<open>writeJSON\<close> encodes.\<close>

datatype response_body = Error_response gostring | Result_response SearchResult

definition handleSearch ::
  "stdlib \<Rightarrow> API \<Rightarrow> (json \<Rightarrow> gostring + SearchResult) \<Rightarrow> (gostring \<Rightarrow> gostring)
    \<Rightarrow> int \<times> response_body" where
  "handleSearch L cfg es_Search get =
     (case SearchNews es_Search (search_params L cfg get) of
        Inl err \<Rightarrow> (500, Error_response err)
      | Inr result \<Rightarrow> (200, Result_response result))"

text \<open>An example request and an index that answers with no hits.\<close>

definition sample_request :: "gostring \<Rightarrow> gostring" where
  "sample_request name =
     (if name = asc ''q'' then asc ''sea''
      else if name = asc ''from'' then asc ''-5''
      else if name = asc ''size'' then asc ''500''
      else if name = asc ''start'' then asc ''yesterday''
      else if name = asc ''end'' then asc ''2024-01-02T15:04:05Z''
      else [])"

definition empty_index :: "json \<Rightarrow> gostring + SearchResult" where
  "empty_index body = Inr \<lparr>Total = 0, Items = []\<rparr>"

definition sample_api :: API where
  "sample_api = \<lparr>DefaultPage = 20, MaxPage = 100\<rparr>"

section \<open>The repository's tests on the model\<close>

text \<open>
  Cases of \<^verbatim>\<open>processor_test.go\<close> and \<^verbatim>\<open>cache_test.go\<close>, the published SHA-1 test vectors and
  some instants rendered as RFC3339, evaluated on the definitions above; Russian text is
  written as its code points. They check the translation, not the program.
\<close>

lemma test_CleanText:
  "CleanText sample_lib [] = []
   \<and> CleanText sample_lib
     [72, 101, 108, 108, 111, 33, 33, 33, 32, 32, 32, 1084, 1080, 1088]
     = [72, 101, 108, 108, 111, 32, 1084, 1080, 1088]
   \<and> CleanText sample_lib (asc ''foo'') = (asc ''foo'')
   \<and> CleanText sample_lib (asc ''Check https://example.com for info'') = asc ''Check for info''"
  by code_simp

lemma test_CleanText_whitespace:
  "CleanText sample_lib ([102, 111, 111, 10, 10, 98, 97, 114, 9, 32, 98, 97, 122]) = asc ''foo bar baz''"
  by code_simp

lemma test_ExtractKeywords:
  "ExtractKeywords sample_lib
     [1058, 1091, 1088, 32, 1058, 1091, 1088, 32, 1087, 1086, 1077, 1079, 1076, 1082,
     1072, 32, 1087, 1086, 1077, 1079, 1076, 1082, 1072, 32, 1087, 1086, 1077, 1079,
     1076, 1082, 1072, 32, 1084, 1086, 1088, 1077, 32, 1080, 32, 1080, 32, 1089, 1086,
     1083, 1085, 1094, 1077] 3 3
   = [[1087, 1086, 1077, 1079, 1076, 1082, 1072], [1090, 1091, 1088], [1084, 1086, 1088, 1077]]
  
   \<and> ExtractKeywords sample_lib [] 5 3 = []"
  by code_simp

lemma test_ExtractURLs:
  "ExtractURLs [] = []
   \<and> ExtractURLs (asc ''Hello world'') = []
   \<and> ExtractURLs (asc ''Go to https://example.com or http://test.org now'')
     = [asc ''https://example.com'', asc ''http://test.org'']
   \<and> ExtractURLs (asc ''https://example.com and https://example.com again'') = [asc ''https://example.com'']"
  by code_simp

lemma test_RemoveURLs:
  "RemoveURLs (asc ''Check https://example.com for more'') = asc ''Check   for more''
   \<and> RemoveURLs (asc ''Go https://example.com and http://test.org now'') = asc ''Go   and   now''
   \<and> RemoveURLs (asc ''https://example.com'') = asc '' ''"
  by code_simp

lemma test_GenerateTitleFromText:
  "GenerateTitleFromText
     [1043, 1086, 1088, 1103, 1097, 1080, 1081, 32, 1090, 1091, 1088, 32, 1074, 32, 1045,
     1075, 1080, 1087, 1077, 1090, 33, 32, 1042, 1089, 1077, 1075, 1086, 32, 51, 48, 48,
     48, 48, 32, 1088, 1091, 1073, 1083, 1077, 1081, 46, 32, 1042, 1099, 1083, 1077,
     1090, 32, 1079, 1072, 1074, 1090, 1088, 1072, 46] 10
     = [1043, 1086, 1088, 1103, 1097, 1080, 1081, 32, 1090, 1091, 1088, 32, 1074, 32, 1045,
     1075, 1080, 1087, 1077, 1090]
   \<and> GenerateTitleFromText
     [1057, 1091, 1087, 1077, 1088, 32, 1087, 1088, 1077, 1076, 1083, 1086, 1078, 1077,
     1085, 1080, 1077, 32, 1087, 1086, 32, 1090, 1091, 1088, 1072, 1084, 32, 1074, 32,
     1088, 1072, 1079, 1085, 1099, 1077, 32, 1089, 1090, 1088, 1072, 1085, 1099, 32,
     1084, 1080, 1088, 1072, 32, 1089, 32, 1073, 1086, 1083, 1100, 1096, 1080, 1084,
     1080, 32, 1089, 1082, 1080, 1076, 1082, 1072, 1084, 1080] 5
     = [1057, 1091, 1087, 1077, 1088, 32, 1087, 1088, 1077, 1076, 1083, 1086, 1078, 1077,
     1085, 1080, 1077, 32, 1087, 1086, 32, 1090, 1091, 1088, 1072, 1084, 32, 1074, 46,
     46, 46]
   \<and> GenerateTitleFromText
     [1054, 1090, 1083, 1080, 1095, 1085, 1086, 1077, 32, 1087, 1088, 1077, 1076, 1083,
     1086, 1078, 1077, 1085, 1080, 1077, 32, 1087, 1086, 32, 1090, 1091, 1088, 1072,
     1084] 0
     = [1054, 1090, 1083, 1080, 1095, 1085, 1086, 1077, 32, 1087, 1088, 1077, 1076, 1083,
     1086, 1078, 1077, 1085, 1080, 1077, 32, 1087, 1086, 32, 1090, 1091, 1088, 1072,
     1084]"
  by code_simp

lemma test_BuildDocumentID:
  "BuildDocumentID (asc ''title'') (asc ''text'') \<lparr>nanos = 1706933106000000000, offset = 0\<rparr>
     = asc ''399d7958ca47e0dcc8bce0ff6c0be8071819ed5f''"
  by code_simp

lemma test_Format_RFC3339_UTC:
  "Format_RFC3339_UTC \<lparr>nanos = 1706933106000000000, offset = 0\<rparr> = asc ''2024-02-03T04:05:06Z''
   \<and> Format_RFC3339_UTC \<lparr>nanos = 951868799999999999, offset = 3600\<rparr> = asc ''2000-02-29T23:59:59Z''
   \<and> Format_RFC3339_UTC \<lparr>nanos = - 1, offset = 0\<rparr> = asc ''1969-12-31T23:59:59Z''
   \<and> Format_RFC3339_UTC zero_Time = asc ''0001-01-01T00:00:00Z''"
  by code_simp

lemma test_sha1:
  "EncodeToString (sha1_Sum (bytes_of (asc ''abc''))) = asc ''a9993e364706816aba3e25717850c26c9cd0d89d''
   \<and> EncodeToString (sha1_Sum []) = asc ''da39a3ee5e6b4b0d3255bfef95601890afd80709''
   \<and> EncodeToString (sha1_Sum (bytes_of
       (asc ''abcdbcdecdefdefgefghfghighijhijkijkljklmklmnlmnomnopnopq'')))
     = asc ''84983e441c3bd26ebaae4aa1f95129e5e54670f1''"
  by code_simp

lemma test_Cache:
  "\<not> IsSeen (NewCache 10 60000000000) 0 (asc ''alpha'')
   \<and> IsSeen (MarkSeen (NewCache 10 60000000000) 1 (asc ''alpha'')) 2 (asc ''alpha'')
   \<and> \<not> IsSeen (MarkSeen (NewCache 10 20000000) 0 (asc ''beta'')) 25000000 (asc ''beta'')
   \<and> \<not> IsSeen (MarkSeen (MarkSeen (NewCache 1 60000000000) 1 (asc ''first'')) 2 (asc ''second''))
         3 (asc ''first'')
   \<and> IsSeen (MarkSeen (MarkSeen (NewCache 1 60000000000) 1 (asc ''first'')) 2 (asc ''second''))
       3 (asc ''second'')"
  by code_simp

section \<open>Facts about the string functions\<close>

lemma asc_simps: "asc [] = []" "asc (c # cs) = of_char c # asc cs"
  by (simp_all add: asc_def)

lemma fields_from_spaces:
  "\<forall>c \<in> set ys. IsSpace c \<Longrightarrow> fields_from cur ys = (if cur = [] then [] else [cur])"
  by (induction ys arbitrary: cur) auto

lemma fields_from_append_spaces:
  "\<forall>c \<in> set ys. IsSpace c \<Longrightarrow> fields_from cur (xs @ ys) = fields_from cur xs"
  by (induction xs arbitrary: cur) (auto simp: fields_from_spaces)

lemma fields_from_dropWhile: "fields_from [] (dropWhile IsSpace s) = fields_from [] s"
  by (induction s) auto

lemma rev_dropWhile_rev_decomp:
  "s = rev (dropWhile P (rev s)) @ rev (takeWhile P (rev s))"
  by (metis rev_append rev_rev_ident takeWhile_dropWhile_id)

lemma Fields_TrimSpace: "Fields (TrimSpace s) = Fields s"
proof -
  let ?t = "dropWhile IsSpace s"
  have "\<forall>c \<in> set (rev (takeWhile IsSpace (rev ?t))). IsSpace c"
    by (auto dest: set_takeWhileD)
  then have "fields_from [] (rev (dropWhile IsSpace (rev ?t)) @ rev (takeWhile IsSpace (rev ?t)))
      = fields_from [] (rev (dropWhile IsSpace (rev ?t)))"
    by (rule fields_from_append_spaces)
  then have "fields_from [] ?t = fields_from [] (rev (dropWhile IsSpace (rev ?t)))"
    using rev_dropWhile_rev_decomp [of ?t IsSpace] by simp
  then show ?thesis
    by (simp add: Fields_def TrimSpace_def TrimFunc_def fields_from_dropWhile)
qed

lemma terminator_chars: "c \<in> set (asc ''.!?'') \<longleftrightarrow> is_terminator c"
  by (auto simp: is_terminator_def asc_simps)

lemma IndexAny_terminators:
  "IndexAny s (asc ''.!?'') =
     (if \<exists>c \<in> set s. is_terminator c
      then int (length (takeWhile (\<lambda>c. \<not> is_terminator c) s)) else -1)"
  unfolding IndexAny_def terminator_chars by simp

lemma take_length_takeWhile: "take (length (takeWhile P s)) s = takeWhile P s"
  by (induction s) auto

lemma takeWhile_all: "\<forall>c \<in> set s. \<not> is_terminator c \<Longrightarrow> takeWhile (\<lambda>c. \<not> is_terminator c) s = s"
  by (induction s) auto

section \<open>Title synthesis: what the code computes\<close>

lemma GenerateTitleFromText_empty: "GenerateTitleFromText [] n = []"
  by (simp add: GenerateTitleFromText_def)

lemma title_amended_empty: "title_amended [] n = []"
  by (auto simp: title_amended_def join_title_def TrimSpace_def TrimFunc_def Fields_def)

lemma sentence_cut:
  "(if IndexAny s (asc ''.!?'') > 0 then TrimSpace (take (nat (IndexAny s (asc ''.!?''))) s) else s) =
     (case s of
        [] \<Rightarrow> []
      | c # _ \<Rightarrow> if is_terminator c then s
                 else if \<exists>d \<in> set s. is_terminator d
                   then TrimSpace (takeWhile (\<lambda>c. \<not> is_terminator c) s)
                 else s)"
proof (cases s)
  case Nil
  then show ?thesis by (simp add: IndexAny_terminators)
next
  case (Cons c cs)
  show ?thesis
  proof (cases "is_terminator c")
    case True
    with Cons show ?thesis by (simp add: IndexAny_terminators)
  next
    case False
    show ?thesis
    proof (cases "\<exists>d \<in> set s. is_terminator d")
      case True
      let ?n = "length (takeWhile (\<lambda>c. \<not> is_terminator c) s)"
      from True have e: "IndexAny s (asc ''.!?'') = int ?n"
        by (simp add: IndexAny_terminators)
      from Cons False have pos: "0 < ?n" by simp
      have tk: "take ?n s = takeWhile (\<lambda>c. \<not> is_terminator c) s"
        by (rule take_length_takeWhile)
      have lhs: "(if IndexAny s (asc ''.!?'') > 0
                  then TrimSpace (take (nat (IndexAny s (asc ''.!?''))) s) else s)
                 = TrimSpace (takeWhile (\<lambda>c. \<not> is_terminator c) s)"
      proof -
        have c1: "(0 < IndexAny s (asc ''.!?'')) = True" using e pos by simp
        have c2: "nat (IndexAny s (asc ''.!?'')) = ?n" using e by simp
        show ?thesis by (simp only: c1 c2 tk if_True)
      qed
      have rhs: "(case s of
                    [] \<Rightarrow> []
                  | c # _ \<Rightarrow> if is_terminator c then s
                     else if \<exists>d \<in> set s. is_terminator d
                       then TrimSpace (takeWhile (\<lambda>c. \<not> is_terminator c) s)
                     else s) = TrimSpace (takeWhile (\<lambda>c. \<not> is_terminator c) s)"
        using True False by (simp add: Cons del: takeWhile.simps set_simps)
      show ?thesis unfolding lhs rhs ..
    next
      case nt: False
      then have "IndexAny s (asc ''.!?'') = -1"
        by (simp add: IndexAny_terminators)
      with Cons False nt show ?thesis by simp
    qed
  qed
qed

lemma join_title_Nil: "join_title [] n = []"
  by (auto simp: join_title_def)

lemma GenerateTitleFromText_sentence:
  assumes "text \<noteq> []"
  shows "GenerateTitleFromText text maxWords =
     join_title (Fields (case RemoveURLs text of
                        [] \<Rightarrow> []
                      | c # _ \<Rightarrow> if is_terminator c then RemoveURLs text
                                 else takeWhile (\<lambda>c. \<not> is_terminator c) (RemoveURLs text))) maxWords"
proof -
  let ?s = "RemoveURLs text"
  let ?cut = "if IndexAny ?s (asc ''.!?'') > 0
              then TrimSpace (take (nat (IndexAny ?s (asc ''.!?''))) ?s) else ?s"
  have g: "GenerateTitleFromText text maxWords = join_title (Fields ?cut) maxWords"
    using assms
    by (cases "Fields ?cut = []")
       (simp_all add: GenerateTitleFromText_def Let_def join_title_Nil, simp add: join_title_def)
  have "Fields ?cut = Fields (case ?s of
                        [] \<Rightarrow> []
                      | c # _ \<Rightarrow> if is_terminator c then ?s
                                 else takeWhile (\<lambda>c. \<not> is_terminator c) ?s)"
  proof (cases ?s)
    case Nil
    then show ?thesis by (simp add: IndexAny_terminators)
  next
    case (Cons c cs)
    show ?thesis
    proof (cases "\<exists>d \<in> set ?s. is_terminator d")
      case True
      then show ?thesis
        unfolding sentence_cut by (simp add: Fields_TrimSpace split: list.split)
    next
      case False
      then show ?thesis
        unfolding sentence_cut by (auto simp: takeWhile_all split: list.split)
    qed
  qed
  with g show ?thesis by simp
qed

text \<open>
  C7 (as amended). For every text and \<open>maxWords\<close>, \<open>GenerateTitleFromText\<close> strips URLs,
  takes the prefix before the first of \<^verbatim>\<open>. ! ?\<close> when that terminator stands at a
  position greater than 0, and the whole URL-free string when there is no terminator or
  the first one stands at position 0; it trims and splits the result into words, keeps
  the first \<open>maxWords\<close> words with a \<^verbatim>\<open>...\<close> suffix when \<open>maxWords > 0\<close> and there are
  more words, and returns the words joined by single spaces (the empty string when no
  word remains).
\<close>

theorem GenerateTitleFromText_amended:
  "GenerateTitleFromText text maxWords = title_amended text maxWords"
proof (cases "text = []")
  case True
  then show ?thesis
    by (simp add: GenerateTitleFromText_empty title_amended_empty)
next
  case False
  then show ?thesis
    by (simp add: GenerateTitleFromText_sentence title_amended_def Let_def Fields_TrimSpace)
qed

theorem GenerateTitleFromText_amended_witness:
  "GenerateTitleFromText (asc ''Hot tour to Egypt! Only today. Call'') 3 = asc ''Hot tour to...''
   \<and> GenerateTitleFromText (asc ''.Hot tour'') 10 = asc ''.Hot tour''"
proof -
  have "title_amended (asc ''Hot tour to Egypt! Only today. Call'') 3 = asc ''Hot tour to...''"
    and "title_amended (asc ''.Hot tour'') 10 = asc ''.Hot tour''"
    by code_simp+
  then show ?thesis
    by (simp only: GenerateTitleFromText_amended)
qed

text \<open>
  C7 as stated fails: when the first terminator is the first character, the prefix rule
  of the specification leaves no word and gives the empty title, while the code keeps
  the whole text.
\<close>

theorem GenerateTitleFromText_terminator_first:
  "GenerateTitleFromText (asc ''!Hot tour'') 10 = asc ''!Hot tour''
   \<and> title_spec (asc ''!Hot tour'') 10 = []"
  by code_simp

section \<open>The cache: bounds on the map\<close>

lemma compact_loop_distinct:
  "distinct (map fst its) \<Longrightarrow> distinct (map fst (fst (compact_loop cap cutoff its ord)))"
  by (induction cap cutoff its ord rule: compact_loop.induct)
     (auto simp: distinct_delete split: option.splits)

lemma backed_step:
  assumes "distinct (map fst its)" and "backed its (oldest # rest)"
  shows "backed (case map_of its (key oldest) of
                   Some t \<Rightarrow> if t = ts oldest then AList.delete (key oldest) its else its
                 | None \<Rightarrow> its) rest"
proof -
  have in_map: "(k, t) \<in> set its \<Longrightarrow> map_of its k = Some t" for k t
    using assms(1) by simp
  show ?thesis
  proof (cases "map_of its (key oldest) = Some (ts oldest)")
    case True
    have "\<lparr>key = k, ts = t\<rparr> \<in> set rest"
      if "(k, t) \<in> set (AList.delete (key oldest) its)" for k t
    proof -
      from that have "(k, t) \<in> set its" and "k \<noteq> key oldest"
        by (auto simp: AList.delete_eq)
      with assms(2) show ?thesis by (auto simp: backed_def)
    qed
    with True show ?thesis by (auto simp: backed_def)
  next
    case False
    have "\<lparr>key = k, ts = t\<rparr> \<in> set rest" if "(k, t) \<in> set its" for k t
    proof -
      from that False in_map have "\<lparr>key = k, ts = t\<rparr> \<noteq> oldest" by auto
      with that assms(2) show ?thesis by (auto simp: backed_def)
    qed
    with False show ?thesis by (auto simp: backed_def split: option.splits)
  qed
qed

lemma step_distinct:
  "distinct (map fst its) \<Longrightarrow>
   distinct (map fst (case map_of its k of
                        Some t \<Rightarrow> if t = t' then AList.delete k its else its
                      | None \<Rightarrow> its))"
  by (auto simp: distinct_delete split: option.splits)

lemma compact_loop_backed:
  "distinct (map fst its) \<Longrightarrow> backed its ord \<Longrightarrow>
   backed (fst (compact_loop cap cutoff its ord)) (snd (compact_loop cap cutoff its ord))"
proof (induction cap cutoff its ord rule: compact_loop.induct)
  case (1 cap cutoff its)
  then show ?case by simp
next
  case (2 cap cutoff its oldest rest)
  show ?case
  proof (cases "int (length its) > cap \<or> ts oldest < cutoff")
    case True
    from 2 True show ?thesis
      using backed_step [OF "2.prems"] step_distinct [OF "2.prems"(1)] by simp
  next
    case False
    with 2 show ?thesis by simp
  qed
qed

lemma backed_Nil: "backed its [] \<Longrightarrow> its = []"
  by (cases its) (auto simp: backed_def)

lemma compact_loop_size:
  "distinct (map fst its) \<Longrightarrow> backed its ord \<Longrightarrow> 0 \<le> cap \<Longrightarrow>
   int (length (fst (compact_loop cap cutoff its ord))) \<le> cap"
proof (induction cap cutoff its ord rule: compact_loop.induct)
  case (1 cap cutoff its)
  then show ?case by (auto dest: backed_Nil)
next
  case (2 cap cutoff its oldest rest)
  show ?case
  proof (cases "int (length its) > cap \<or> ts oldest < cutoff")
    case True
    from 2 True show ?thesis
      using backed_step [OF "2.prems"(1,2)] step_distinct [OF "2.prems"(1)] by simp
  next
    case False
    with 2 show ?thesis by simp
  qed
qed

lemma compact_loop_suffix:
  "\<exists>dropped. ord = dropped @ snd (compact_loop cap cutoff its ord)"
proof (induction cap cutoff its ord rule: compact_loop.induct)
  case (1 cap cutoff its)
  then show ?case by simp
next
  case (2 cap cutoff its oldest rest)
  show ?case
  proof (cases "int (length its) > cap \<or> ts oldest < cutoff")
    case True
    with 2 obtain dropped where
      "rest = dropped @ snd (compact_loop cap cutoff its (oldest # rest))"
      by auto
    then have "oldest # rest = (oldest # dropped) @ snd (compact_loop cap cutoff its (oldest # rest))"
      by simp
    then show ?thesis by blast
  next
    case False
    then show ?thesis by simp
  qed
qed

lemma compact_loop_cutoff:
  "sorted (map ts ord) \<Longrightarrow>
   \<forall>e \<in> set (snd (compact_loop cap cutoff its ord)). cutoff \<le> ts e"
  by (induction cap cutoff its ord rule: compact_loop.induct) auto

lemma sorted_suffix: "sorted (map f (xs @ ys)) \<Longrightarrow> sorted (map f ys)"
  by (simp add: sorted_append)

text \<open>What one \<open>MarkSeen\<close> establishes.\<close>

lemma MarkSeen_fields [simp]:
  "capacity (MarkSeen c now k) = capacity c" "ttl (MarkSeen c now k) = ttl c"
  by (simp_all add: MarkSeen_def compact_def Let_def split: prod.splits)

lemma MarkSeen_inv:
  assumes inv: "cache_inv c" and le: "\<forall>e \<in> set (order c). ts e \<le> now"
  shows "cache_inv (MarkSeen c now k)"
    and "int (length (items (MarkSeen c now k))) \<le> capacity c"
    and "all_within_ttl (MarkSeen c now k) now"
    and "set (order (MarkSeen c now k)) \<subseteq> insert \<lparr>key = k, ts = now\<rparr> (set (order c))"
proof -
  let ?its = "AList.update k now (items c)"
  let ?ord = "order c @ [\<lparr>key = k, ts = now\<rparr>]"
  let ?r = "compact_loop (capacity c) (now - ttl c) ?its ?ord"
  have m: "items (MarkSeen c now k) = fst ?r" "order (MarkSeen c now k) = snd ?r"
    by (simp_all add: MarkSeen_def compact_def Let_def split: prod.splits)
  from inv have d: "distinct (map fst ?its)"
    by (simp add: cache_inv_def distinct_update)
  have b: "backed ?its ?ord"
  proof -
    have "\<lparr>key = k', ts = t\<rparr> \<in> set ?ord" if "(k', t) \<in> set ?its" for k' t
    proof (cases "k' = k")
      case True
      from d that have "map_of ?its k' = Some t" by simp
      with True have "t = now" by (simp add: update_conv')
      with True show ?thesis by simp
    next
      case False
      from d that have "map_of ?its k' = Some t" by simp
      with False have "map_of (items c) k' = Some t" by (simp add: update_conv')
      then have "(k', t) \<in> set (items c)" by (rule map_of_SomeD)
      with inv show ?thesis by (auto simp: cache_inv_def backed_def)
    qed
    then show ?thesis by (auto simp: backed_def)
  qed
  from inv le have s: "sorted (map ts ?ord)"
    by (auto simp: cache_inv_def sorted_append)
  obtain dropped where suf: "?ord = dropped @ snd ?r"
    using compact_loop_suffix by blast
  from s suf have s': "sorted (map ts (snd ?r))"
    by (metis sorted_suffix)
  from inv have cap: "1 \<le> capacity c" and pos: "0 < ttl c"
    by (simp_all add: cache_inv_def)
  show "cache_inv (MarkSeen c now k)"
    using compact_loop_distinct [OF d] compact_loop_backed [OF d b] s' cap pos
    by (simp add: cache_inv_def m)
  show "int (length (items (MarkSeen c now k))) \<le> capacity c"
    using compact_loop_size [OF d b, of "capacity c" "now - ttl c"] cap by (simp add: m)
  show "all_within_ttl (MarkSeen c now k) now"
  proof -
    have "now - t \<le> ttl c" if "(k', t) \<in> set (fst ?r)" for k' t
    proof -
      from that compact_loop_backed [OF d b, of "capacity c" "now - ttl c"]
      have "\<lparr>key = k', ts = t\<rparr> \<in> set (snd ?r)" by (auto simp: backed_def)
      with compact_loop_cutoff [OF s, of "capacity c" "now - ttl c" ?its]
      have "now - ttl c \<le> t" by fastforce
      then show ?thesis by simp
    qed
    then show ?thesis by (auto simp: all_within_ttl_def m)
  qed
  show "set (order (MarkSeen c now k)) \<subseteq> insert \<lparr>key = k, ts = now\<rparr> (set (order c))"
  proof -
    have "set (snd ?r) \<subseteq> set ?ord"
      by (subst (2) suf) auto
    then show ?thesis by (auto simp: m)
  qed
qed

lemma NewCache_fields:
  "items (NewCache cap d) = []" "order (NewCache cap d) = []"
  "capacity (NewCache cap d) = (if cap \<le> 0 then 1 else cap)"
  "ttl (NewCache cap d) = (if d \<le> 0 then Hour else d)"
  by (simp_all add: NewCache_def)

lemma cache_inv_NewCache: "cache_inv (NewCache cap d)"
  by (simp add: cache_inv_def NewCache_fields backed_def Hour_def)

lemma run_calls_snoc: "run_calls c (calls @ [x]) = apply_call (run_calls c calls) x"
  by (simp add: run_calls_def)

lemma run_calls_inv:
  assumes "cache_inv c0" and "int (length (items c0)) \<le> capacity c0"
    and "sorted (map fst calls)"
    and "\<forall>e \<in> set (order c0). \<forall>x \<in> set calls. ts e \<le> fst x"
  shows "cache_inv (run_calls c0 calls)
    \<and> int (length (items (run_calls c0 calls))) \<le> capacity c0
    \<and> capacity (run_calls c0 calls) = capacity c0
    \<and> ttl (run_calls c0 calls) = ttl c0
    \<and> (\<forall>e \<in> set (order (run_calls c0 calls)). e \<in> set (order c0) \<or> ts e \<in> fst ` set calls)"
  using assms(3,4)
proof (induction calls rule: rev_induct)
  case Nil
  with assms(1,2) show ?case by (simp add: run_calls_def)
next
  case (snoc x calls)
  let ?c = "run_calls c0 calls"
  from snoc.prems have srt: "sorted (map fst calls)"
    and later: "\<forall>y \<in> set calls. fst y \<le> fst x"
    by (auto simp: sorted_append)
  from snoc.prems(2) have "\<forall>e \<in> set (order c0). \<forall>x \<in> set calls. ts e \<le> fst x"
    by simp
  with snoc.IH srt have ih: "cache_inv ?c" "int (length (items ?c)) \<le> capacity c0"
    "capacity ?c = capacity c0" "ttl ?c = ttl c0"
    "\<forall>e \<in> set (order ?c). e \<in> set (order c0) \<or> ts e \<in> fst ` set calls"
    by simp_all
  obtain now cl where x: "x = (now, cl)" by (cases x)
  show ?case
  proof (cases cl)
    case (IsSeen_call k)
    with x ih show ?thesis by (auto simp: run_calls_snoc)
  next
    case (MarkSeen_call k)
    have le: "\<forall>e \<in> set (order ?c). ts e \<le> now"
    proof
      fix e assume "e \<in> set (order ?c)"
      with ih(5) have "e \<in> set (order c0) \<or> ts e \<in> fst ` set calls" by simp
      then show "ts e \<le> now"
      proof
        assume "e \<in> set (order c0)"
        with snoc.prems(2) x show ?thesis by simp
      next
        assume "ts e \<in> fst ` set calls"
        with later x show ?thesis by auto
      qed
    qed
    have r: "run_calls c0 (calls @ [x]) = MarkSeen ?c now k"
      by (simp add: run_calls_snoc x MarkSeen_call)
    from MarkSeen_inv(4) [OF ih(1) le, of k] ih(5)
    have "\<forall>e \<in> set (order (MarkSeen ?c now k)).
            e \<in> set (order c0) \<or> ts e \<in> fst ` set (calls @ [x])"
      by (auto simp: x)
    with MarkSeen_inv(1,2) [OF ih(1) le, of k] ih(3,4) show ?thesis
      by (simp add: r)
  qed
qed

text \<open>
  C3 (as amended). For every capacity and ttl given to \<open>NewCache\<close> and every sequence of
  \<open>MarkSeen\<close> and \<open>IsSeen\<close> calls with non-decreasing clock readings: after any call the
  map holds at most \<open>capacity\<close> entries (the capacity \<open>NewCache\<close> has set, at least 1),
  one for each key; immediately after a \<open>MarkSeen\<close> call every entry's timestamp is
  within \<open>ttl\<close> of that call's instant; an \<open>IsSeen\<close> call leaves the cache as it was,
  so that entries older than \<open>ttl\<close> stay in the map until the next \<open>MarkSeen\<close>.
\<close>

theorem cache_bounds_after_calls:
  assumes "sorted (map fst calls)"
  shows "let c = run_calls (NewCache cap d) calls in
      distinct (map fst (items c))
    \<and> int (length (items c)) \<le> capacity c
    \<and> capacity c = (if cap \<le> 0 then 1 else cap)
    \<and> (\<forall>now k. calls \<noteq> [] \<and> last calls = (now, MarkSeen_call k) \<longrightarrow> all_within_ttl c now)
    \<and> (\<forall>now k. calls \<noteq> [] \<and> last calls = (now, IsSeen_call k)
          \<longrightarrow> c = run_calls (NewCache cap d) (butlast calls))"
proof -
  let ?c0 = "NewCache cap d"
  have c0: "cache_inv ?c0" "int (length (items ?c0)) \<le> capacity ?c0"
    "\<forall>e \<in> set (order ?c0). \<forall>x \<in> set calls. ts e \<le> fst x"
    by (simp_all add: cache_inv_NewCache NewCache_fields)
  note inv = run_calls_inv [OF c0(1,2) assms c0(3)]
  have mark: "all_within_ttl (run_calls ?c0 calls) now"
    if ne: "calls \<noteq> []" and l: "last calls = (now, MarkSeen_call k)" for now k
  proof -
    from ne l have split: "calls = butlast calls @ [(now, MarkSeen_call k)]"
      by (metis append_butlast_last_id)
    let ?b = "butlast calls"
    from assms split have srt: "sorted (map fst ?b)" and later: "\<forall>y \<in> set ?b. fst y \<le> now"
      by (metis map_append sorted_append, metis (no_types, lifting) fst_conv image_eqI
          in_set_conv_decomp list.set_map list.simps(15) list.simps(9) map_append sorted_append
          insertI1)
    have "\<forall>e \<in> set (order ?c0). \<forall>x \<in> set ?b. ts e \<le> fst x"
      by (simp add: NewCache_fields)
    note ib = run_calls_inv [OF c0(1,2) srt this]
    have le: "\<forall>e \<in> set (order (run_calls ?c0 ?b)). ts e \<le> now"
    proof
      fix e assume "e \<in> set (order (run_calls ?c0 ?b))"
      with ib have "ts e \<in> fst ` set ?b" by (simp add: NewCache_fields)
      with later show "ts e \<le> now" by auto
    qed
    have "run_calls ?c0 calls = MarkSeen (run_calls ?c0 ?b) now k"
      by (subst split) (simp add: run_calls_snoc)
    with MarkSeen_inv(3) [OF _ le, of k] ib show ?thesis by simp
  qed
  have seen: "run_calls ?c0 calls = run_calls ?c0 (butlast calls)"
    if ne: "calls \<noteq> []" and l: "last calls = (now, IsSeen_call k)" for now k
  proof -
    from ne l have "calls = butlast calls @ [(now, IsSeen_call k)]"
      by (metis append_butlast_last_id)
    then have "run_calls ?c0 calls = apply_call (run_calls ?c0 (butlast calls)) (now, IsSeen_call k)"
      by (metis run_calls_snoc)
    then show ?thesis by simp
  qed
  from inv have "distinct (map fst (items (run_calls ?c0 calls)))"
    and "int (length (items (run_calls ?c0 calls))) \<le> capacity (run_calls ?c0 calls)"
    and "capacity (run_calls ?c0 calls) = (if cap \<le> 0 then 1 else cap)"
    by (simp_all add: cache_inv_def NewCache_fields)
  with mark seen show ?thesis
    unfolding Let_def by blast
qed

theorem cache_bounds_after_calls_witness:
  "sorted (map fst [(0::instant, MarkSeen_call (asc ''first'')), (1, IsSeen_call (asc ''second'')),
                    (2, MarkSeen_call (asc ''second''))])
   \<and> all_within_ttl
        (run_calls (NewCache 1 60)
           [(0, MarkSeen_call (asc ''first'')), (1, IsSeen_call (asc ''second'')),
            (2, MarkSeen_call (asc ''second''))]) 2
   \<and> items (run_calls (NewCache 1 60)
           [(0, MarkSeen_call (asc ''first'')), (1, IsSeen_call (asc ''second'')),
            (2, MarkSeen_call (asc ''second''))]) = [(asc ''second'', 2)]"
proof -
  let ?calls = "[(0::instant, MarkSeen_call (asc ''first'')), (1, IsSeen_call (asc ''second'')),
                 (2, MarkSeen_call (asc ''second''))]"
  have s: "sorted (map fst ?calls)" by simp
  have "all_within_ttl (run_calls (NewCache 1 60) ?calls) 2"
    using cache_bounds_after_calls [OF s, of 1 60] by (simp add: Let_def)
  moreover have "items (run_calls (NewCache 1 60) ?calls) = [(asc ''second'', 2)]"
    by code_simp
  ultimately show ?thesis using s by blast
qed

text \<open>
  C3 as stated fails for the age bound after an \<open>IsSeen\<close> call: \<open>IsSeen\<close> removes
  nothing. With ttl 5, a key marked at instant 0 is still in the map after the call
  \<open>IsSeen\<close> at instant 100, which reports it as not seen.
\<close>

theorem IsSeen_keeps_expired_entry:
  "\<not> all_within_ttl
        (run_calls (NewCache 10 5)
           [(0, MarkSeen_call (asc ''a'')), (100, IsSeen_call (asc ''a''))]) 100
   \<and> items (run_calls (NewCache 10 5)
           [(0, MarkSeen_call (asc ''a'')), (100, IsSeen_call (asc ''a''))]) = [(asc ''a'', 0)]
   \<and> \<not> IsSeen (run_calls (NewCache 10 5) [(0, MarkSeen_call (asc ''a''))]) 100 (asc ''a'')"
  by code_simp

section \<open>CleanText is idempotent\<close>

lemma replace_runs_id: "\<forall>c \<in> set s. \<not> P c \<Longrightarrow> replace_runs P s = s"
  by (induction s) auto

lemma set_replace_runs: "set (replace_runs P s) \<subseteq> insert 32 {c \<in> set s. \<not> P c}"
proof (induction P s rule: replace_runs.induct)
  case (1 P)
  then show ?case by simp
next
  case (2 P c cs)
  show ?case
  proof (cases "P c")
    case True
    with 2 have "set (replace_runs P (dropWhile P cs)) \<subseteq> insert 32 {c \<in> set (dropWhile P cs). \<not> P c}"
      by simp
    also have "\<dots> \<subseteq> insert 32 {c \<in> set cs. \<not> P c}"
      by (auto dest: set_dropWhileD)
    finally show ?thesis using True by auto
  next
    case False
    with 2 show ?thesis by auto
  qed
qed

lemma squeezed_skip: "\<not> P c \<Longrightarrow> squeezed P (c # s) = squeezed P s"
  by (cases s) auto

lemma squeezed_space: "P 32 \<Longrightarrow> s = [] \<or> \<not> P (hd s) \<Longrightarrow> squeezed P (32 # s) = squeezed P s"
  by (cases s) auto

lemma replace_runs_hd:
  "s = [] \<or> \<not> P (hd s) \<Longrightarrow> replace_runs P s = [] \<or> \<not> P (hd (replace_runs P s))"
  by (cases s) auto

lemma squeezed_replace_runs: "P 32 \<Longrightarrow> squeezed P (replace_runs P s)"
proof (induction P s rule: replace_runs.induct)
  case (1 P)
  then show ?case by simp
next
  case (2 P c cs)
  show ?case
  proof (cases "P c")
    case True
    have "dropWhile P cs = [] \<or> \<not> P (hd (dropWhile P cs))"
      by (metis hd_dropWhile)
    then have "replace_runs P (dropWhile P cs) = [] \<or> \<not> P (hd (replace_runs P (dropWhile P cs)))"
      by (rule replace_runs_hd)
    with 2 True show ?thesis by (simp add: squeezed_space)
  next
    case False
    with 2 show ?thesis by (simp add: squeezed_skip)
  qed
qed

lemma squeezed_fixed: "squeezed P s \<Longrightarrow> replace_runs P s = s"
  by (induction P s rule: squeezed.induct) auto

lemma squeezed_tl: "squeezed P (c # s) \<Longrightarrow> squeezed P s"
  by (cases s) auto

lemma squeezed_dropWhile: "squeezed P s \<Longrightarrow> squeezed P (dropWhile Q s)"
  by (induction s) (auto dest: squeezed_tl)

lemma squeezed_prefix: "squeezed P (xs @ ys) \<Longrightarrow> squeezed P xs"
proof (induction P xs rule: squeezed.induct)
  case (1 P)
  then show ?case by simp
next
  case (2 P c)
  then show ?case by (cases ys) auto
next
  case (3 P c d r)
  then show ?case by auto
qed

lemma squeezed_TrimSpace: "squeezed P s \<Longrightarrow> squeezed P (TrimSpace s)"
proof -
  assume "squeezed P s"
  then have a: "squeezed P (dropWhile IsSpace s)"
    by (rule squeezed_dropWhile)
  let ?a = "dropWhile IsSpace s"
  from a have "squeezed P (rev (dropWhile IsSpace (rev ?a)) @ rev (takeWhile IsSpace (rev ?a)))"
    using rev_dropWhile_rev_decomp [of ?a IsSpace] by simp
  then have "squeezed P (rev (dropWhile IsSpace (rev ?a)))"
    by (rule squeezed_prefix)
  then show ?thesis by (simp add: TrimSpace_def TrimFunc_def)
qed

lemma set_TrimSpace: "set (TrimSpace s) \<subseteq> set s"
proof
  fix x assume "x \<in> set (TrimSpace s)"
  then have "x \<in> set (dropWhile IsSpace (rev (dropWhile IsSpace s)))"
    by (simp add: TrimSpace_def TrimFunc_def)
  then have "x \<in> set (rev (dropWhile IsSpace s))" by (rule set_dropWhileD)
  then have "x \<in> set (dropWhile IsSpace s)" by simp
  then show "x \<in> set s" by (rule set_dropWhileD)
qed

lemma TrimFunc_idem: "TrimFunc (TrimFunc s f) f = TrimFunc s f"
proof -
  let ?a = "dropWhile f s"
  let ?b = "rev (dropWhile f (rev ?a))"
  have dec: "?a = ?b @ rev (takeWhile f (rev ?a))"
    by (rule rev_dropWhile_rev_decomp)
  have front: "dropWhile f ?b = ?b"
  proof (cases "?b = []")
    case True
    show ?thesis by (simp only: True dropWhile.simps)
  next
    case False
    then have "hd ?a = hd ?b" by (subst dec) simp
    moreover from False have "?a \<noteq> []"
      by (metis dropWhile.simps(1) rev.simps(1))
    then have "\<not> f (hd ?a)" by (metis hd_dropWhile)
    ultimately show ?thesis using False by (cases ?b) auto
  qed
  have rear: "dropWhile f (rev ?b) = rev ?b"
    by simp
  show ?thesis
    unfolding TrimFunc_def front rear by simp
qed

lemma TrimSpace_idem: "TrimSpace (TrimSpace s) = TrimSpace s"
  by (simp add: TrimSpace_def TrimFunc_idem)

lemma url_scheme_colon: "58 \<notin> set s \<Longrightarrow> url_scheme s = None"
proof -
  assume n: "58 \<notin> set s"
  have "take 8 s \<noteq> asc ''https://''"
  proof
    assume "take 8 s = asc ''https://''"
    then have "58 \<in> set (take 8 s)" by (simp add: asc_simps)
    with n show False by (auto dest: in_set_takeD)
  qed
  moreover have "take 7 s \<noteq> asc ''http://''"
  proof
    assume "take 7 s = asc ''http://''"
    then have "58 \<in> set (take 7 s)" by (simp add: asc_simps)
    with n show False by (auto dest: in_set_takeD)
  qed
  ultimately show ?thesis by (simp add: url_scheme_def)
qed

lemma RemoveURLs_id: "58 \<notin> set s \<Longrightarrow> RemoveURLs s = s"
proof (induction s)
  case Nil
  then show ?case by simp
next
  case (Cons c cs)
  then have "url_match (c # cs) = None"
    by (simp add: url_match_def url_scheme_colon)
  with Cons show ?case by simp
qed

text \<open>The shape of every output of \<open>CleanText\<close>.\<close>

lemma CleanText_shape:
  "(\<forall>c \<in> set (CleanText L x). c = 32 \<or> (\<not> re_space c \<and> (IsLetter L c \<or> IsNumber L c)))
   \<and> squeezed re_space (CleanText L x)
   \<and> TrimSpace (CleanText L x) = CleanText L x"
proof (cases "x = []")
  case True
  then show ?thesis by (simp add: CleanText_def TrimSpace_def TrimFunc_def)
next
  case False
  let ?u = "RemoveURLs (UnescapeString L x)"
  let ?t = "replace_runs (punctuation L) ?u"
  let ?w = "replace_runs re_space ?t"
  from False have y: "CleanText L x = TrimSpace ?w"
    by (simp add: CleanText_def)
  have "c = 32 \<or> (\<not> re_space c \<and> (IsLetter L c \<or> IsNumber L c))" if "c \<in> set ?w" for c
  proof (cases "c = 32")
    case True
    then show ?thesis by simp
  next
    case ne: False
    with that set_replace_runs [of re_space ?t] have "c \<in> set ?t" and ns: "\<not> re_space c"
      by auto
    with ne set_replace_runs [of "punctuation L" ?u] have "\<not> punctuation L c"
      by auto
    with ns show ?thesis by (simp add: punctuation_def)
  qed
  with set_TrimSpace [of ?w]
  have chars: "\<forall>c \<in> set (TrimSpace ?w). c = 32 \<or> (\<not> re_space c \<and> (IsLetter L c \<or> IsNumber L c))"
    by blast
  have "squeezed re_space ?w"
    by (rule squeezed_replace_runs) (simp add: re_space_def)
  then have "squeezed re_space (TrimSpace ?w)"
    by (rule squeezed_TrimSpace)
  with chars show ?thesis
    by (simp add: y TrimSpace_idem)
qed

text \<open>
  C6. \<open>CleanText\<close> is idempotent: for every string \<open>x\<close>,
  \<open>CleanText (CleanText x) = CleanText x\<close>, for every standard library in which
  \<^verbatim>\<open>html.UnescapeString\<close> leaves a string without \<^verbatim>\<open>&\<close> as it is and in which \<^verbatim>\<open>&\<close> and
  \<^verbatim>\<open>:\<close> are neither letters nor numbers.
\<close>

theorem CleanText_idempotent:
  assumes "stdlib_facts L"
  shows "CleanText L (CleanText L x) = CleanText L x"
proof (cases "CleanText L x = []")
  case True
  then show ?thesis by (simp add: CleanText_def)
next
  case False
  let ?y = "CleanText L x"
  from CleanText_shape [of L x]
  have chars: "\<forall>c \<in> set ?y. c = 32 \<or> (\<not> re_space c \<and> (IsLetter L c \<or> IsNumber L c))"
    and sq: "squeezed re_space ?y" and tr: "TrimSpace ?y = ?y"
    by simp_all
  from assms have amp: "\<not> IsLetter L 38" "\<not> IsNumber L 38"
    and colon: "\<not> IsLetter L 58" "\<not> IsNumber L 58"
    and unesc: "\<And>s. 38 \<notin> set s \<Longrightarrow> UnescapeString L s = s"
    by (simp_all add: stdlib_facts_def)
  from chars amp have "38 \<notin> set ?y" by auto
  then have 1: "UnescapeString L ?y = ?y" by (rule unesc)
  from chars colon have "58 \<notin> set ?y" by auto
  then have 2: "RemoveURLs ?y = ?y" by (rule RemoveURLs_id)
  from chars have "\<forall>c \<in> set ?y. \<not> punctuation L c"
    by (auto simp: punctuation_def re_space_def)
  then have 3: "replace_runs (punctuation L) ?y = ?y" by (rule replace_runs_id)
  from sq have 4: "replace_runs re_space ?y = ?y" by (rule squeezed_fixed)
  from False have "CleanText L ?y =
      TrimSpace (replace_runs re_space (replace_runs (punctuation L)
        (RemoveURLs (UnescapeString L ?y))))"
    by (simp add: CleanText_def)
  then show ?thesis by (simp only: 1 2 3 4 tr)
qed

lemma sample_Unescape_id: "38 \<notin> set s \<Longrightarrow> sample_Unescape s = s"
  by (induction s) auto

lemma sample_lib_facts: "stdlib_facts sample_lib"
  by (simp add: stdlib_facts_def sample_lib_def sample_Unescape_id sample_IsLetter_def
      sample_IsNumber_def)

theorem CleanText_idempotent_witness:
  "stdlib_facts sample_lib
   \<and> CleanText sample_lib (asc ''Tom &amp; Co: see https://a.io/x?y=1  now!!'') = asc ''Tom Co see now''
   \<and> CleanText sample_lib (CleanText sample_lib (asc ''Tom &amp; Co: see https://a.io/x?y=1  now!!''))
       = asc ''Tom Co see now''"
proof -
  have v: "CleanText sample_lib (asc ''Tom &amp; Co: see https://a.io/x?y=1  now!!'') = asc ''Tom Co see now''"
    by code_simp
  from CleanText_idempotent [OF sample_lib_facts, of "asc ''Tom &amp; Co: see https://a.io/x?y=1  now!!''"]
  have "CleanText sample_lib (CleanText sample_lib (asc ''Tom &amp; Co: see https://a.io/x?y=1  now!!''))
       = asc ''Tom Co see now''"
    by (simp only: v)
  with v sample_lib_facts show ?thesis by simp
qed

section \<open>ExtractKeywords: the postcondition\<close>

subsection \<open>The counting loop\<close>

lemma counted_tokens_Nil [simp]: "counted_tokens L m [] = []"
  by (simp add: counted_tokens_def)

lemma counted_tokens_Cons:
  "counted_tokens L m (t # rest) =
     (let t' = TrimFunc t (\<lambda>r. \<not> IsLetter L r \<and> \<not> IsNumber L r)
      in if int (length t') < m \<or> t' \<in> set stopwords then counted_tokens L m rest
         else t' # counted_tokens L m rest)"
  by (auto simp: counted_tokens_def Let_def)

lemma count_tokens_distinct:
  "distinct (map fst freq) \<Longrightarrow> distinct (map fst (count_tokens L m toks freq))"
  by (induction toks arbitrary: freq) (auto simp: Let_def distinct_update)

lemma count_tokens_map_of:
  "map_of (count_tokens L m toks freq) w =
     (if w \<in> set (counted_tokens L m toks)
      then Some ((case map_of freq w of Some n \<Rightarrow> n | None \<Rightarrow> 0)
                 + int (count_list (counted_tokens L m toks) w))
      else map_of freq w)"
proof (induction toks arbitrary: freq)
  case Nil
  then show ?case by simp
next
  case (Cons t rest)
  let ?t = "TrimFunc t (\<lambda>r. \<not> IsLetter L r \<and> \<not> IsNumber L r)"
  show ?case
  proof (cases "int (length ?t) < m \<or> ?t \<in> set stopwords")
    case True
    then have "count_tokens L m (t # rest) freq = count_tokens L m rest freq"
      and "counted_tokens L m (t # rest) = counted_tokens L m rest"
      by (auto simp: Let_def counted_tokens_Cons)
    with Cons show ?thesis by simp
  next
    case False
    let ?f = "AList.update ?t ((case map_of freq ?t of Some n \<Rightarrow> n | None \<Rightarrow> 0) + 1) freq"
    from False have c: "count_tokens L m (t # rest) freq = count_tokens L m rest ?f"
      and k: "counted_tokens L m (t # rest) = ?t # counted_tokens L m rest"
      by (auto simp: Let_def counted_tokens_Cons)
    show ?thesis
      unfolding c k Cons.IH
      by (auto simp: update_conv' count_list_0_iff split: option.splits)
  qed
qed

lemma count_tokens_pairs:
  "(w, n) \<in> set (count_tokens L m toks []) \<longleftrightarrow>
     w \<in> set (counted_tokens L m toks) \<and> n = int (count_list (counted_tokens L m toks) w)"
proof -
  have "distinct (map fst (count_tokens L m toks []))"
    by (rule count_tokens_distinct) simp
  then have "(w, n) \<in> set (count_tokens L m toks []) \<longleftrightarrow>
      map_of (count_tokens L m toks []) w = Some n"
    by simp
  then show ?thesis by (auto simp: count_tokens_map_of)
qed

subsection \<open>Sorting\<close>

lemma kv_less_asym: "kv_less p q \<Longrightarrow> \<not> kv_less q p"
  by (auto simp: kv_less_def split: if_splits)

lemma kv_less_trans: "kv_less p q \<Longrightarrow> kv_less q r \<Longrightarrow> kv_less p r"
  by (auto simp: kv_less_def split: if_splits)

lemma kv_less_total: "p \<noteq> q \<Longrightarrow> kv_less p q \<or> kv_less q p"
  by (cases p; cases q) (auto simp: kv_less_def)

lemma kv_le_trans: "\<not> kv_less q p \<Longrightarrow> \<not> kv_less r q \<Longrightarrow> \<not> kv_less r p"
  by (metis kv_less_total kv_less_trans)

lemma set_insert_kv [simp]: "set (insert_kv x ys) = insert x (set ys)"
  by (induction ys) auto

lemma length_insert_kv [simp]: "length (insert_kv x ys) = Suc (length ys)"
  by (induction ys) auto

lemma distinct_insert_kv [simp]: "distinct (insert_kv x ys) \<longleftrightarrow> x \<notin> set ys \<and> distinct ys"
  by (induction ys) auto

lemma set_sort_Slice [simp]: "set (sort_Slice xs) = set xs"
  by (induction xs) auto

lemma length_sort_Slice [simp]: "length (sort_Slice xs) = length xs"
  by (induction xs) auto

lemma distinct_sort_Slice [simp]: "distinct (sort_Slice xs) \<longleftrightarrow> distinct xs"
  by (induction xs) auto

lemma sorted_insert_kv:
  "sorted_wrt (\<lambda>p q. \<not> kv_less q p) ys \<Longrightarrow> sorted_wrt (\<lambda>p q. \<not> kv_less q p) (insert_kv x ys)"
proof (induction ys)
  case Nil
  then show ?case by simp
next
  case (Cons y ys)
  show ?case
  proof (cases "kv_less x y")
    case True
    then have yx: "\<not> kv_less y x" by (rule kv_less_asym)
    have "\<forall>z \<in> set ys. \<not> kv_less z x"
    proof
      fix z assume "z \<in> set ys"
      with Cons.prems have "\<not> kv_less z y" by simp
      with yx show "\<not> kv_less z x" by (rule kv_le_trans)
    qed
    with yx show ?thesis using True Cons.prems by simp
  next
    case False
    with Cons show ?thesis by auto
  qed
qed

lemma sorted_sort_Slice: "sorted_wrt (\<lambda>p q. \<not> kv_less q p) (sort_Slice xs)"
  by (induction xs) (auto intro: sorted_insert_kv)

lemma sorted_sort_Slice_strict:
  assumes "distinct xs"
  shows "sorted_wrt kv_less (sort_Slice xs)"
  unfolding sorted_wrt_iff_nth_less
proof (intro allI impI)
  fix i j assume ij: "i < j" and j: "j < length (sort_Slice xs)"
  with sorted_sort_Slice [of xs] have "\<not> kv_less (sort_Slice xs ! j) (sort_Slice xs ! i)"
    by (simp add: sorted_wrt_iff_nth_less)
  moreover from assms ij j have "sort_Slice xs ! i \<noteq> sort_Slice xs ! j"
    by (simp add: nth_eq_iff_index_eq)
  ultimately show "kv_less (sort_Slice xs ! i) (sort_Slice xs ! j)"
    using kv_less_total by blast
qed

subsection \<open>The result\<close>

lemma ExtractKeywords_sorted_prefix:
  "ExtractKeywords L text limit minLen =
     map fst (take (if limit \<le> 0 \<or> limit > int (length (count_tokens L minLen
                          (Fields (map (ToLower L) (CleanText L text))) []))
                    then length (count_tokens L minLen
                          (Fields (map (ToLower L) (CleanText L text))) [])
                    else nat limit)
       (sort_Slice (count_tokens L minLen (Fields (map (ToLower L) (CleanText L text))) [])))"
proof (cases "CleanText L text = []")
  case True
  then show ?thesis by (simp add: ExtractKeywords_def Fields_def)
next
  case False
  then show ?thesis by (auto simp: ExtractKeywords_def Let_def)
qed

lemma counted_tokens_kept:
  "k \<in> set (counted_tokens L m toks) \<Longrightarrow> m \<le> int (length k) \<and> k \<notin> set stopwords"
  by (auto simp: counted_tokens_def)

text \<open>
  C4. For every text, \<open>limit\<close> and \<open>minLen\<close>: no keyword returned has fewer than
  \<open>minLen\<close> runes and none is a stop-word; the result has at most \<open>limit\<close> entries when
  \<open>limit > 0\<close>; when \<open>limit \<le> 0\<close> or \<open>limit\<close> exceeds the number of distinct counted
  tokens, all of them are returned; the keywords are distinct counted tokens, ordered
  by descending count with ties in ascending lexicographic order, and every counted
  token left out comes after every keyword in that order.
\<close>

theorem ExtractKeywords_postcondition:
  "let ks = ExtractKeywords L text limit minLen;
       toks = text_tokens L text minLen
   in (\<forall>k \<in> set ks. minLen \<le> int (length k) \<and> k \<notin> set stopwords)
    \<and> (0 < limit \<longrightarrow> int (length ks) \<le> limit)
    \<and> (limit \<le> 0 \<or> int (card (set toks)) < limit \<longrightarrow> set ks = set toks)
    \<and> set ks \<subseteq> set toks
    \<and> distinct ks
    \<and> sorted_wrt (ranks_before (count_list toks)) ks
    \<and> (\<forall>k \<in> set ks. \<forall>w \<in> set toks - set ks. ranks_before (count_list toks) k w)"
proof -
  let ?toks = "text_tokens L text minLen"
  let ?freq = "count_tokens L minLen (Fields (map (ToLower L) (CleanText L text))) []"
  let ?ps = "sort_Slice ?freq"
  let ?n = "if limit \<le> 0 \<or> limit > int (length ?freq) then length ?freq else nat limit"
  let ?ks = "map fst (take ?n ?ps)"
  let ?cnt = "count_list ?toks"
  have ks: "ExtractKeywords L text limit minLen = ?ks"
    by (rule ExtractKeywords_sorted_prefix)
  have pairs: "(w, n) \<in> set ?freq \<longleftrightarrow> w \<in> set ?toks \<and> n = int (?cnt w)" for w n
    unfolding text_tokens_def by (rule count_tokens_pairs)
  have dk: "distinct (map fst ?freq)"
    by (rule count_tokens_distinct) simp
  then have df: "distinct ?freq"
    by (rule distinct_map [THEN iffD1, THEN conjunct1])
  have keys: "fst ` set ?freq = set ?toks"
    using pairs by force
  have len: "length ?freq = card (set ?toks)"
    using dk keys by (metis distinct_card length_map list.set_map)
  have dps: "distinct (map fst ?ps)"
  proof -
    have "inj_on fst (set ?freq)"
      using dk by (simp add: distinct_map)
    then show ?thesis using df by (simp add: distinct_map)
  qed
  have srt: "sorted_wrt kv_less ?ps"
    using df by (rule sorted_sort_Slice_strict)
  have rank: "ranks_before ?cnt (fst p) (fst q)"
    if "p \<in> set ?freq" "q \<in> set ?freq" "kv_less p q" for p q
  proof -
    from that(1,2) pairs [of "fst p" "snd p"] pairs [of "fst q" "snd q"]
    have "snd p = int (?cnt (fst p))" "snd q = int (?cnt (fst q))"
      by simp_all
    with that(3) show ?thesis
      by (auto simp: kv_less_def ranks_before_def split: if_splits)
  qed
  have sub: "set ?ks \<subseteq> set ?toks"
  proof
    fix k assume "k \<in> set ?ks"
    then obtain p where "p \<in> set (take ?n ?ps)" and k: "k = fst p" by auto
    then have "p \<in> set ?ps" by (auto dest: in_set_takeD)
    then have "(fst p, snd p) \<in> set ?freq" by simp
    then show "k \<in> set ?toks" unfolding k pairs by simp
  qed
  have c1: "\<forall>k \<in> set ?ks. minLen \<le> int (length k) \<and> k \<notin> set stopwords"
    using sub counted_tokens_kept [of _ L minLen] unfolding text_tokens_def by blast
  have c2: "0 < limit \<longrightarrow> int (length ?ks) \<le> limit"
    by auto
  have c3: "limit \<le> 0 \<or> int (card (set ?toks)) < limit \<longrightarrow> set ?ks = set ?toks"
    using keys len by auto
  have c5: "distinct ?ks"
    using dps by (simp add: take_map [symmetric] distinct_take)
  have c6: "sorted_wrt (ranks_before ?cnt) ?ks"
  proof -
    have "sorted_wrt kv_less (take ?n ?ps)"
      using srt by (rule sorted_wrt_take)
    then have "sorted_wrt (\<lambda>p q. ranks_before ?cnt (fst p) (fst q)) (take ?n ?ps)"
      by (rule sorted_wrt_mono_rel [rotated]) (auto dest!: in_set_takeD intro: rank)
    then show ?thesis by (simp add: sorted_wrt_map)
  qed
  have c7: "\<forall>k \<in> set ?ks. \<forall>w \<in> set ?toks - set ?ks. ranks_before ?cnt k w"
  proof (intro ballI)
    fix k w assume k: "k \<in> set ?ks" and w: "w \<in> set ?toks - set ?ks"
    from k obtain p where p: "p \<in> set (take ?n ?ps)" "k = fst p" by auto
    from w pairs obtain q where q: "q \<in> set ?ps" "w = fst q" by force
    with w have "q \<notin> set (take ?n ?ps)" by auto
    with q(1) have "q \<in> set (drop ?n ?ps)"
      by (metis Un_iff append_take_drop_id set_append)
    moreover have "sorted_wrt kv_less (take ?n ?ps @ drop ?n ?ps)"
      using srt by simp
    ultimately have "kv_less p q"
      using p(1) unfolding sorted_wrt_append by blast
    moreover from p(1) have "p \<in> set ?freq" by (auto dest!: in_set_takeD)
    moreover from q(1) have "q \<in> set ?freq" by simp
    ultimately show "ranks_before ?cnt k w"
      unfolding p(2) q(2) by (intro rank)
  qed
  from c1 c2 c3 sub c5 c6 c7 show ?thesis
    unfolding Let_def ks by blast
qed

text \<open>
  The example of the repository's test: the words \<^verbatim>\<open>tur tur poezdka poezdka poezdka
  more i i solnce\<close> in Russian, with \<open>limit = 3\<close> and \<open>minLen = 3\<close>.
\<close>

theorem ExtractKeywords_postcondition_witness:
  "ExtractKeywords sample_lib
     [1058, 1091, 1088, 32, 1058, 1091, 1088, 32, 1087, 1086, 1077, 1079, 1076, 1082, 1072, 32, 1087, 1086, 1077, 1079, 1076, 1082, 1072, 32, 1087, 1086, 1077, 1079, 1076, 1082, 1072, 32, 1084, 1086, 1088, 1077, 32, 1080, 32, 1080, 32, 1089, 1086, 1083, 1085, 1094, 1077] 3 3
   = [[1087, 1086, 1077, 1079, 1076, 1082, 1072], [1090, 1091, 1088], [1084, 1086, 1088, 1077]]
   \<and> int (length (ExtractKeywords sample_lib
     [1058, 1091, 1088, 32, 1058, 1091, 1088, 32, 1087, 1086, 1077, 1079, 1076, 1082, 1072, 32, 1087, 1086, 1077, 1079, 1076, 1082, 1072, 32, 1087, 1086, 1077, 1079, 1076, 1082, 1072, 32, 1084, 1086, 1088, 1077, 32, 1080, 32, 1080, 32, 1089, 1086, 1083, 1085, 1094, 1077] 3 3)) \<le> 3
   \<and> sorted_wrt (ranks_before (count_list (text_tokens sample_lib
     [1058, 1091, 1088, 32, 1058, 1091, 1088, 32, 1087, 1086, 1077, 1079, 1076, 1082, 1072, 32, 1087, 1086, 1077, 1079, 1076, 1082, 1072, 32, 1087, 1086, 1077, 1079, 1076, 1082, 1072, 32, 1084, 1086, 1088, 1077, 32, 1080, 32, 1080, 32, 1089, 1086, 1083, 1085, 1094, 1077] 3)))
       (ExtractKeywords sample_lib
     [1058, 1091, 1088, 32, 1058, 1091, 1088, 32, 1087, 1086, 1077, 1079, 1076, 1082, 1072, 32, 1087, 1086, 1077, 1079, 1076, 1082, 1072, 32, 1087, 1086, 1077, 1079, 1076, 1082, 1072, 32, 1084, 1086, 1088, 1077, 32, 1080, 32, 1080, 32, 1089, 1086, 1083, 1085, 1094, 1077] 3 3)"
proof -
  have v: "ExtractKeywords sample_lib
     [1058, 1091, 1088, 32, 1058, 1091, 1088, 32, 1087, 1086, 1077, 1079, 1076, 1082, 1072, 32, 1087, 1086, 1077, 1079, 1076, 1082, 1072, 32, 1087, 1086, 1077, 1079, 1076, 1082, 1072, 32, 1084, 1086, 1088, 1077, 32, 1080, 32, 1080, 32, 1089, 1086, 1083, 1085, 1094, 1077] 3 3
   = [[1087, 1086, 1077, 1079, 1076, 1082, 1072], [1090, 1091, 1088], [1084, 1086, 1088, 1077]]"
    by code_simp
  from ExtractKeywords_postcondition [of sample_lib
     "[1058, 1091, 1088, 32, 1058, 1091, 1088, 32, 1087, 1086, 1077, 1079, 1076, 1082, 1072, 32, 1087, 1086, 1077, 1079, 1076, 1082, 1072, 32, 1087, 1086, 1077, 1079, 1076, 1082, 1072, 32, 1084, 1086, 1088, 1077, 32, 1080, 32, 1080, 32, 1089, 1086, 1083, 1085, 1094, 1077]" 3 3]
  have "int (length (ExtractKeywords sample_lib
     [1058, 1091, 1088, 32, 1058, 1091, 1088, 32, 1087, 1086, 1077, 1079, 1076, 1082, 1072, 32, 1087, 1086, 1077, 1079, 1076, 1082, 1072, 32, 1087, 1086, 1077, 1079, 1076, 1082, 1072, 32, 1084, 1086, 1088, 1077, 32, 1080, 32, 1080, 32, 1089, 1086, 1083, 1085, 1094, 1077] 3 3)) \<le> 3"
   and "sorted_wrt (ranks_before (count_list (text_tokens sample_lib
     [1058, 1091, 1088, 32, 1058, 1091, 1088, 32, 1087, 1086, 1077, 1079, 1076, 1082, 1072, 32, 1087, 1086, 1077, 1079, 1076, 1082, 1072, 32, 1087, 1086, 1077, 1079, 1076, 1082, 1072, 32, 1084, 1086, 1088, 1077, 32, 1080, 32, 1080, 32, 1089, 1086, 1083, 1085, 1094, 1077] 3)))
       (ExtractKeywords sample_lib
     [1058, 1091, 1088, 32, 1058, 1091, 1088, 32, 1087, 1086, 1077, 1079, 1076, 1082, 1072, 32, 1087, 1086, 1077, 1079, 1076, 1082, 1072, 32, 1087, 1086, 1077, 1079, 1076, 1082, 1072, 32, 1084, 1086, 1088, 1077, 32, 1080, 32, 1080, 32, 1089, 1086, 1083, 1085, 1094, 1077] 3 3)"
    unfolding Let_def by simp_all
  with v show ?thesis by simp
qed

section \<open>Document identity\<close>

lemma length_sha1_Sum: "length (sha1_Sum m) = 20"
  by (simp add: sha1_Sum_def be_bytes_def split: prod.splits)

lemma sha1_Sum_bytes: "b \<in> set (sha1_Sum m) \<Longrightarrow> 0 \<le> b \<and> b < 256"
  by (auto simp: sha1_Sum_def be_bytes_def split: prod.splits)

lemma length_EncodeToString: "length (EncodeToString bs) = 2 * length bs"
  by (induction bs) (simp_all add: EncodeToString_def)

lemma hexdigit_lower: "0 \<le> n \<Longrightarrow> n < 16 \<Longrightarrow> is_lower_hex (hexdigit n)"
  by (auto simp: hexdigit_def is_lower_hex_def)

lemma EncodeToString_lower:
  assumes "\<forall>b \<in> set bs. 0 \<le> b \<and> b < 256" and "c \<in> set (EncodeToString bs)"
  shows "is_lower_hex c"
proof -
  from assms(2) obtain b where b: "b \<in> set bs" and c: "c = hexdigit (b div 16) \<or> c = hexdigit (b mod 16)"
    by (auto simp: EncodeToString_def)
  from assms(1) b have "0 \<le> b" "b < 256" by auto
  then have "0 \<le> b div 16" "b div 16 < 16" "0 \<le> b mod 16" "b mod 16 < 16"
    by auto
  with c show ?thesis by (auto intro: hexdigit_lower)
qed

lemma Format_RFC3339_UTC_second:
  "nanos t div 1000000000 = nanos t' div 1000000000 \<Longrightarrow> Format_RFC3339_UTC t = Format_RFC3339_UTC t'"
  by (simp add: Format_RFC3339_UTC_def)

lemma length_BuildDocumentID: "length (BuildDocumentID title text t) = 40"
  by (simp add: BuildDocumentID_def length_EncodeToString length_sha1_Sum)

lemma BuildDocumentID_not_empty: "BuildDocumentID title text t \<noteq> []"
  using length_BuildDocumentID [of title "text" t] by auto

text \<open>The identifier of the document is the fingerprint, whatever the UUID source gives.\<close>

lemma built_document_ID:
  "ID (built_document L cfg env p) =
     BuildDocumentID
       (if TrimSpace (rawNews.Title p) = [] \<and> TrimSpace (rawNews.Text p) \<noteq> []
        then GenerateTitleFromText (TrimSpace (rawNews.Text p)) 10
        else TrimSpace (rawNews.Title p))
       (CleanText L (TrimSpace (rawNews.Text p)))
       (if IsZero (parseTimestamp L (rawNews.Timestamp p))
        then \<lparr>nanos = now_fallback env, offset = 0\<rparr>
        else parseTimestamp L (rawNews.Timestamp p))"
  by (simp add: built_document_def Let_def BuildDocumentID_not_empty)

lemma built_document_uuid:
  "built_document L cfg (env\<lparr>uuid_NewString := u\<rparr>) p = built_document L cfg env p"
  by (simp add: built_document_def Let_def BuildDocumentID_not_empty)

lemma processMessage_decoded:
  assumes "json_Unmarshal L (Value msg) = Some p"
    and "\<not> (TrimSpace (rawNews.Title p) = [] \<and> TrimSpace (rawNews.Text p) = [])"
  shows "processMessage L indexer cfg env st msg =
     (if IsSeen (cache st) (now_IsSeen env) (ID (built_document L cfg env p)) then (None, st)
      else
        (case indexer (built_document L cfg env p) of
           Some err \<Rightarrow>
             (Some (Index_error err),
              st\<lparr>index_calls := index_calls st @ [built_document L cfg env p]\<rparr>)
         | None \<Rightarrow>
             (None,
              st\<lparr>cache := MarkSeen (cache st) (now_MarkSeen env) (ID (built_document L cfg env p)),
                 index_calls := index_calls st @ [built_document L cfg env p]\<rparr>)))"
proof -
  have ne: "(TrimSpace (rawNews.Title p) = [] \<and> TrimSpace (rawNews.Text p) = []) = False"
    using assms(2) by simp
  show ?thesis
    unfolding processMessage_def built_document_def Let_def assms(1) option.case ne if_False
    by (rule refl)
qed

lemma processMessage_rejected:
  "json_Unmarshal L (Value msg) = None \<Longrightarrow>
     processMessage L indexer cfg env st msg = (Some Unmarshal_error, st)"
  "json_Unmarshal L (Value msg) = Some p \<Longrightarrow>
   TrimSpace (rawNews.Title p) = [] \<and> TrimSpace (rawNews.Text p) = [] \<Longrightarrow>
     processMessage L indexer cfg env st msg = (Some Empty_payload, st)"
  by (simp_all add: processMessage_def Let_def)

lemma processMessage_uuid:
  "processMessage L indexer cfg (env\<lparr>uuid_NewString := u\<rparr>) st msg
     = processMessage L indexer cfg env st msg"
proof (cases "json_Unmarshal L (Value msg)")
  case None
  then show ?thesis by (simp add: processMessage_rejected)
next
  case (Some p)
  show ?thesis
  proof (cases "TrimSpace (rawNews.Title p) = [] \<and> TrimSpace (rawNews.Text p) = []")
    case True
    with Some show ?thesis by (simp add: processMessage_rejected)
  next
    case False
    with Some show ?thesis
      by (simp add: processMessage_decoded built_document_uuid split: option.split)
  qed
qed

text \<open>
  C8. \<open>BuildDocumentID\<close> is a function of the title, the cleaned text and the second
  of the instant: timestamps that render to the same RFC3339 UTC text (the same
  instant up to its fraction of a second, in any location) give the same identifier.
  The identifier always is 40 lowercase hexadecimal characters, never the empty
  string; so the branch of \<open>processMessage\<close> that takes a random UUID is never taken:
  its result does not depend on what \<^verbatim>\<open>uuid.NewString()\<close> would return.
\<close>

theorem BuildDocumentID_deterministic_40_hex:
  "(nanos t div 1000000000 = nanos t' div 1000000000
      \<longrightarrow> BuildDocumentID title text t = BuildDocumentID title text t')
   \<and> length (BuildDocumentID title text t) = 40
   \<and> (\<forall>c \<in> set (BuildDocumentID title text t). is_lower_hex c)
   \<and> BuildDocumentID title text t \<noteq> []
   \<and> processMessage L indexer cfg (env\<lparr>uuid_NewString := u\<rparr>) st msg
        = processMessage L indexer cfg env st msg"
proof (intro conjI impI)
  assume sec: "nanos t div 1000000000 = nanos t' div 1000000000"
  show "BuildDocumentID title text t = BuildDocumentID title text t'"
    unfolding BuildDocumentID_def by (simp only: Format_RFC3339_UTC_second [OF sec])
next
  show "length (BuildDocumentID title text t) = 40"
    by (rule length_BuildDocumentID)
next
  show "\<forall>c \<in> set (BuildDocumentID title text t). is_lower_hex c"
  proof
    fix c assume "c \<in> set (BuildDocumentID title text t)"
    then have c: "c \<in> set (EncodeToString (sha1_Sum (bytes_of
        (title @ asc ''|'' @ text @ asc ''|'' @ Format_RFC3339_UTC t))))"
      unfolding BuildDocumentID_def .
    have "\<forall>b \<in> set (sha1_Sum (bytes_of
        (title @ asc ''|'' @ text @ asc ''|'' @ Format_RFC3339_UTC t))). 0 \<le> b \<and> b < 256"
      using sha1_Sum_bytes by blast
    then show "is_lower_hex c" using c by (rule EncodeToString_lower)
  qed
next
  show "BuildDocumentID title text t \<noteq> []"
    by (rule BuildDocumentID_not_empty)
next
  show "processMessage L indexer cfg (env\<lparr>uuid_NewString := u\<rparr>) st msg
        = processMessage L indexer cfg env st msg"
    by (rule processMessage_uuid)
qed

theorem BuildDocumentID_deterministic_40_hex_witness:
  "BuildDocumentID (asc ''Hot tour'') (asc ''Sea and sun'') \<lparr>nanos = 1704207845000000000, offset = 0\<rparr>
     = BuildDocumentID (asc ''Hot tour'') (asc ''Sea and sun'') \<lparr>nanos = 1704207845999999999, offset = 10800\<rparr>
   \<and> BuildDocumentID (asc ''Hot tour'') (asc ''Sea and sun'') \<lparr>nanos = 1704207845000000000, offset = 0\<rparr>
     = asc ''1fb21387273d4ef451d9540b9ff3bb345a09c607''"
proof -
  have "BuildDocumentID (asc ''Hot tour'') (asc ''Sea and sun'') \<lparr>nanos = 1704207845000000000, offset = 0\<rparr>
     = BuildDocumentID (asc ''Hot tour'') (asc ''Sea and sun'') \<lparr>nanos = 1704207845999999999, offset = 10800\<rparr>"
    using BuildDocumentID_deterministic_40_hex
      [of "\<lparr>nanos = 1704207845000000000, offset = 0\<rparr>"
          "\<lparr>nanos = 1704207845999999999, offset = 10800\<rparr>" "asc ''Hot tour''" "asc ''Sea and sun''"]
    by simp
  moreover have "BuildDocumentID (asc ''Hot tour'') (asc ''Sea and sun'') \<lparr>nanos = 1704207845000000000, offset = 0\<rparr>
     = asc ''1fb21387273d4ef451d9540b9ff3bb345a09c607''"
    by code_simp
  ultimately show ?thesis by simp
qed

section \<open>The worker and the cache\<close>

lemma keys_all_same_length:
  "distinct (map fst its) \<Longrightarrow> \<forall>p \<in> set its. fst p = k \<Longrightarrow> length its \<le> 1"
proof (cases its)
  case Nil
  then show ?thesis by simp
next
  case (Cons a rest)
  assume d: "distinct (map fst its)" and s: "\<forall>p \<in> set its. fst p = k"
  have "rest = []"
  proof (cases rest)
    case Nil
    then show ?thesis .
  next
    case (Cons b rest')
    with \<open>its = a # rest\<close> s have "fst a = fst b" by simp
    with \<open>its = a # rest\<close> Cons d show ?thesis by simp
  qed
  with Cons show ?thesis by simp
qed

text \<open>Compaction does not remove the entry that was just appended.\<close>

lemma compact_loop_keeps_last:
  assumes "distinct (map fst its)" and "backed its (ord0 @ [e])"
    and "map_of its (key e) = Some (ts e)" and "e \<notin> set ord0"
    and "1 \<le> cap" and "cutoff \<le> ts e"
  shows "map_of (fst (compact_loop cap cutoff its (ord0 @ [e]))) (key e) = Some (ts e)"
  using assms(1-4)
proof (induction ord0 arbitrary: its)
  case Nil
  have "\<forall>p \<in> set its. fst p = key e"
    using Nil.prems(2) by (auto simp: backed_def)
  with Nil.prems(1) have "length its \<le> 1" by (rule keys_all_same_length)
  with assms(5,6) Nil.prems(3) show ?case by simp
next
  case (Cons oldest rest)
  show ?case
  proof (cases "int (length its) > cap \<or> ts oldest < cutoff")
    case False
    with Cons.prems(3) show ?thesis by simp
  next
    case True
    let ?its = "case map_of its (key oldest) of
                  Some t \<Rightarrow> if t = ts oldest then AList.delete (key oldest) its else its
                | None \<Rightarrow> its"
    have d: "distinct (map fst ?its)"
      using Cons.prems(1) by (rule step_distinct)
    have b: "backed ?its (rest @ [e])"
      using backed_step [OF Cons.prems(1), of oldest "rest @ [e]"] Cons.prems(2) by simp
    have m: "map_of ?its (key e) = Some (ts e)"
    proof (cases "map_of its (key oldest) = Some (ts oldest)")
      case False
      with Cons.prems(3) show ?thesis by (auto split: option.splits)
    next
      case del: True
      have "key oldest \<noteq> key e"
      proof
        assume same: "key oldest = key e"
        with del Cons.prems(3) have "ts oldest = ts e" by simp
        with same have "oldest = e" by simp
        with Cons.prems(4) show False by simp
      qed
      with del Cons.prems(3) show ?thesis by simp
    qed
    from Cons.prems(4) have "e \<notin> set rest" by simp
    from Cons.IH [OF d b m this] True show ?thesis by simp
  qed
qed

lemma MarkSeen_recorded:
  assumes "cache_inv c" and "\<lparr>key = k, ts = now\<rparr> \<notin> set (order c)"
  shows "map_of (items (MarkSeen c now k)) k = Some now"
proof -
  let ?its = "AList.update k now (items c)"
  let ?e = "\<lparr>key = k, ts = now\<rparr>"
  from assms(1) have d: "distinct (map fst ?its)"
    by (simp add: cache_inv_def distinct_update)
  have b: "backed ?its (order c @ [?e])"
  proof -
    have "\<lparr>key = k', ts = t\<rparr> \<in> set (order c @ [?e])" if "(k', t) \<in> set ?its" for k' t
    proof -
      from d that have m: "map_of ?its k' = Some t" by simp
      show ?thesis
      proof (cases "k' = k")
        case True
        with m have "t = now" by (simp add: update_conv')
        with True show ?thesis by simp
      next
        case False
        with m have "map_of (items c) k' = Some t" by (simp add: update_conv')
        then have "(k', t) \<in> set (items c)" by (rule map_of_SomeD)
        with assms(1) show ?thesis by (auto simp: cache_inv_def backed_def)
      qed
    qed
    then show ?thesis by (auto simp: backed_def)
  qed
  have "map_of (fst (compact_loop (capacity c) (now - ttl c) ?its (order c @ [?e]))) (key ?e)
      = Some (ts ?e)"
  proof (rule compact_loop_keeps_last)
    show "distinct (map fst ?its)" by (rule d)
    show "backed ?its (order c @ [?e])" by (rule b)
    show "map_of ?its (key ?e) = Some (ts ?e)" by (simp add: update_conv')
    show "?e \<notin> set (order c)" by (rule assms(2))
    from assms(1) show "1 \<le> capacity c" by (simp add: cache_inv_def)
    from assms(1) show "now - ttl c \<le> ts ?e" by (simp add: cache_inv_def)
  qed
  then show ?thesis
    by (simp add: MarkSeen_def compact_def Let_def case_prod_unfold)
qed

lemma built_document_ID_stamp:
  assumes "\<not> IsZero (parseTimestamp L (rawNews.Timestamp p))
           \<or> now_fallback env div 1000000000 = now_fallback env' div 1000000000"
  shows "ID (built_document L cfg env' p) = ID (built_document L cfg env p)"
proof (cases "IsZero (parseTimestamp L (rawNews.Timestamp p))")
  case False
  then show ?thesis by (simp add: built_document_ID)
next
  case True
  with assms have "nanos \<lparr>nanos = now_fallback env', offset = 0\<rparr> div 1000000000
      = nanos \<lparr>nanos = now_fallback env, offset = 0\<rparr> div 1000000000"
    by simp
  then have "Format_RFC3339_UTC \<lparr>nanos = now_fallback env', offset = 0\<rparr>
      = Format_RFC3339_UTC \<lparr>nanos = now_fallback env, offset = 0\<rparr>"
    by (rule Format_RFC3339_UTC_second)
  with True show ?thesis by (simp add: built_document_ID BuildDocumentID_def)
qed

text \<open>The first processing of a new message with an indexer that succeeds.\<close>

lemma processMessage_new:
  assumes dec: "json_Unmarshal L (Value msg) = Some p"
    and ne: "\<not> (TrimSpace (rawNews.Title p) = [] \<and> TrimSpace (rawNews.Text p) = [])"
    and ok: "indexer (built_document L cfg env p) = None"
    and new: "\<not> IsSeen (cache st) (now_IsSeen env) (ID (built_document L cfg env p))"
  shows "processMessage L indexer cfg env st msg =
     (None, st\<lparr>cache := MarkSeen (cache st) (now_MarkSeen env) (ID (built_document L cfg env p)),
               index_calls := index_calls st @ [built_document L cfg env p]\<rparr>)"
  using ok new by (simp add: processMessage_decoded [OF dec ne])

text \<open>A message whose identifier the cache reports as seen changes nothing.\<close>

lemma processMessage_duplicate:
  assumes dec: "json_Unmarshal L (Value msg) = Some p"
    and ne: "\<not> (TrimSpace (rawNews.Title p) = [] \<and> TrimSpace (rawNews.Text p) = [])"
    and seen: "IsSeen (cache st) (now_IsSeen env) (ID (built_document L cfg env p))"
  shows "processMessage L indexer cfg env st msg = (None, st)"
  using seen by (simp add: processMessage_decoded [OF dec ne])

lemma processMessage_again:
  assumes dec: "json_Unmarshal L (Value msg) = Some p"
    and ne: "\<not> (TrimSpace (rawNews.Title p) = [] \<and> TrimSpace (rawNews.Text p) = [])"
    and same: "ID (built_document L cfg env' p) = ID (built_document L cfg env p)"
    and inv: "cache_inv (cache st)"
    and nohist: "\<lparr>key = ID (built_document L cfg env p), ts = now_MarkSeen env\<rparr> \<notin> set (order (cache st))"
  shows "IsSeen (MarkSeen (cache st) (now_MarkSeen env) (ID (built_document L cfg env p)))
           (now_IsSeen env') (ID (built_document L cfg env' p))
         \<longleftrightarrow> now_IsSeen env' - now_MarkSeen env \<le> ttl (cache st)"
  using MarkSeen_recorded [OF inv nohist] by (simp add: IsSeen_def same)

text \<open>
  C1 (as amended). For every message that decodes to a payload with a title or a text,
  processed twice in succession with the same cache and an indexer that succeeds: if
  the timestamp of the payload parses to a non-zero instant (or, when the code takes
  the current instant instead, the two readings of the clock lie in the same second),
  the first processing is not itself dropped as a duplicate, the history of the cache
  has no entry of this identifier at the very instant of the first \<open>MarkSeen\<close>, and
  the second \<open>IsSeen\<close> reads the clock at most \<open>ttl\<close> after that instant, then there is
  exactly one \<open>IndexNews\<close> call, and the second processing is dropped as a duplicate
  and leaves the state as it is.
\<close>

theorem processMessage_twice_one_index_call:
  assumes dec: "json_Unmarshal L (Value msg) = Some p"
    and ne: "\<not> (TrimSpace (rawNews.Title p) = [] \<and> TrimSpace (rawNews.Text p) = [])"
    and stamp: "\<not> IsZero (parseTimestamp L (rawNews.Timestamp p))
                \<or> now_fallback env1 div 1000000000 = now_fallback env2 div 1000000000"
    and ok: "\<forall>doc. indexer doc = None"
    and inv: "cache_inv (cache st)"
    and new: "\<not> IsSeen (cache st) (now_IsSeen env1) (ID (built_document L cfg env1 p))"
    and nohist: "\<lparr>key = ID (built_document L cfg env1 p), ts = now_MarkSeen env1\<rparr>
                   \<notin> set (order (cache st))"
    and within: "now_IsSeen env2 - now_MarkSeen env1 \<le> ttl (cache st)"
  shows "\<exists>st1. processMessage L indexer cfg env1 st msg = (None, st1)
           \<and> processMessage L indexer cfg env2 st1 msg = (None, st1)
           \<and> index_calls st1 = index_calls st @ [built_document L cfg env1 p]"
proof -
  let ?id = "ID (built_document L cfg env1 p)"
  let ?st1 = "st\<lparr>cache := MarkSeen (cache st) (now_MarkSeen env1) ?id,
                 index_calls := index_calls st @ [built_document L cfg env1 p]\<rparr>"
  from ok have ok1: "indexer (built_document L cfg env1 p) = None" by simp
  have first: "processMessage L indexer cfg env1 st msg = (None, ?st1)"
    using dec ne ok1 new by (rule processMessage_new)
  have same: "ID (built_document L cfg env2 p) = ?id"
    using stamp by (rule built_document_ID_stamp)
  have "IsSeen (cache ?st1) (now_IsSeen env2) (ID (built_document L cfg env2 p))"
    using processMessage_again [OF dec ne same inv nohist] within by simp
  with dec ne have second: "processMessage L indexer cfg env2 ?st1 msg = (None, ?st1)"
    by (rule processMessage_duplicate)
  from first second show ?thesis by auto
qed

lemma dated_message_decoded:
  "json_Unmarshal sample_lib (Value dated_message)
     = Some \<lparr>rawNews.Title = asc ''Hot tour'', Text = asc ''Sea and sun'',
             Timestamp = asc ''2024-01-02T15:04:05Z'', Source = asc ''rss''\<rparr>"
  by code_simp

lemma dated_message_checks:
  "\<not> (TrimSpace (asc ''Hot tour'') = [] \<and> TrimSpace (asc ''Sea and sun'') = [])"
  "\<not> IsZero (parseTimestamp sample_lib (asc ''2024-01-02T15:04:05Z''))"
  by code_simp+

theorem processMessage_twice_one_index_call_witness:
  "processMessage sample_lib stubIndexer sample_cfg (readings_at 1704207900000000000)
      (snd (processMessage sample_lib stubIndexer sample_cfg (readings_at 1704207845000000000)
              fresh_state dated_message))
      dated_message
    = processMessage sample_lib stubIndexer sample_cfg (readings_at 1704207845000000000)
        fresh_state dated_message
   \<and> length (index_calls (snd (processMessage sample_lib stubIndexer sample_cfg
        (readings_at 1704207845000000000) fresh_state dated_message))) = 1"
proof -
  let ?p = "\<lparr>rawNews.Title = asc ''Hot tour'', Text = asc ''Sea and sun'',
             Timestamp = asc ''2024-01-02T15:04:05Z'', Source = asc ''rss''\<rparr>"
  let ?e1 = "readings_at 1704207845000000000" and ?e2 = "readings_at 1704207900000000000"
  have ne: "\<not> (TrimSpace (rawNews.Title ?p) = [] \<and> TrimSpace (rawNews.Text ?p) = [])"
    using dated_message_checks(1) by simp
  have stamp: "\<not> IsZero (parseTimestamp sample_lib (rawNews.Timestamp ?p))
      \<or> now_fallback ?e1 div 1000000000 = now_fallback ?e2 div 1000000000"
    using dated_message_checks(2) by simp
  have ok: "\<forall>doc. stubIndexer doc = None"
    by (simp add: stubIndexer_def)
  have inv: "cache_inv (cache fresh_state)"
    by (simp add: fresh_state_def cache_inv_NewCache)
  have new: "\<not> IsSeen (cache fresh_state) (now_IsSeen ?e1)
               (ID (built_document sample_lib sample_cfg ?e1 ?p))"
    by (simp add: fresh_state_def IsSeen_def NewCache_fields)
  have nohist: "\<lparr>key = ID (built_document sample_lib sample_cfg ?e1 ?p), ts = now_MarkSeen ?e1\<rparr>
      \<notin> set (order (cache fresh_state))"
    by (simp add: fresh_state_def NewCache_fields)
  have within: "now_IsSeen ?e2 - now_MarkSeen ?e1 \<le> ttl (cache fresh_state)"
    by (simp add: fresh_state_def NewCache_fields readings_at_def Hour_def)
  from processMessage_twice_one_index_call
    [OF dated_message_decoded ne stamp ok inv new nohist within]
  obtain st1 where
    "processMessage sample_lib stubIndexer sample_cfg ?e1 fresh_state dated_message = (None, st1)"
    "processMessage sample_lib stubIndexer sample_cfg ?e2 st1 dated_message = (None, st1)"
    "index_calls st1 = index_calls fresh_state @ [built_document sample_lib sample_cfg ?e1 ?p]"
    by blast
  then show ?thesis by (simp add: fresh_state_def)
qed

text \<open>
  C1 as stated fails for a payload without a timestamp: the code takes the current
  instant, the identifier is built from its second, and two processings in different
  seconds give two identifiers. The message with title \<^verbatim>\<open>t\<close>, text \<^verbatim>\<open>x\<close> and an empty
  timestamp, processed at 15:04:05 and again at 15:05:00, is indexed twice.
\<close>

theorem processMessage_twice_undated:
  "length (index_calls (snd (
      processMessage sample_lib stubIndexer sample_cfg (readings_at 1704207900000000000)
        (snd (processMessage sample_lib stubIndexer sample_cfg (readings_at 1704207845000000000)
                fresh_state undated_message))
        undated_message))) = 2"
  by code_simp

text \<open>
  C9. When \<open>IsSeen\<close> reports the identifier as seen, \<open>processMessage\<close> returns success
  and the state (the cache and the list of \<open>IndexNews\<close> calls) is the one it was given:
  no \<open>MarkSeen\<close>, no indexing. So the window of an identifier starts at its last
  \<open>MarkSeen\<close>, which follows a successful index: a message indexed with the clock at
  \<open>now_MarkSeen env1\<close> is dropped while \<open>IsSeen\<close> reads at most \<open>ttl\<close> later, and is
  indexed again once \<open>IsSeen\<close> reads more than \<open>ttl\<close> later, whatever duplicates were
  dropped in between.
\<close>

theorem duplicate_does_not_extend_window:
  assumes dec: "json_Unmarshal L (Value msg) = Some p"
    and ne: "\<not> (TrimSpace (rawNews.Title p) = [] \<and> TrimSpace (rawNews.Text p) = [])"
    and stamp: "\<not> IsZero (parseTimestamp L (rawNews.Timestamp p))"
    and ok: "\<forall>doc. indexer doc = None"
    and inv: "cache_inv (cache st)"
    and new: "\<not> IsSeen (cache st) (now_IsSeen env1) (ID (built_document L cfg env1 p))"
    and nohist: "\<lparr>key = ID (built_document L cfg env1 p), ts = now_MarkSeen env1\<rparr>
                   \<notin> set (order (cache st))"
    and within: "now_IsSeen env2 - now_MarkSeen env1 \<le> ttl (cache st)"
    and late: "ttl (cache st) < now_IsSeen env3 - now_MarkSeen env1"
  shows "(\<forall>st' env. IsSeen (cache st') (now_IsSeen env) (ID (built_document L cfg env p))
            \<longrightarrow> processMessage L indexer cfg env st' msg = (None, st'))
    \<and> (\<exists>st1 st3.
          processMessage L indexer cfg env1 st msg = (None, st1)
        \<and> processMessage L indexer cfg env2 st1 msg = (None, st1)
        \<and> processMessage L indexer cfg env3 st1 msg = (None, st3)
        \<and> index_calls st3
            = index_calls st @ [built_document L cfg env1 p, built_document L cfg env3 p]
        \<and> cache st3 = MarkSeen (cache st1) (now_MarkSeen env3) (ID (built_document L cfg env3 p)))"
proof
  show "\<forall>st' env. IsSeen (cache st') (now_IsSeen env) (ID (built_document L cfg env p))
            \<longrightarrow> processMessage L indexer cfg env st' msg = (None, st')"
    using processMessage_duplicate [OF dec ne] by blast
next
  let ?id = "ID (built_document L cfg env1 p)"
  let ?st1 = "st\<lparr>cache := MarkSeen (cache st) (now_MarkSeen env1) ?id,
                 index_calls := index_calls st @ [built_document L cfg env1 p]\<rparr>"
  let ?st3 = "?st1\<lparr>cache := MarkSeen (cache ?st1) (now_MarkSeen env3)
                                (ID (built_document L cfg env3 p)),
                   index_calls := index_calls ?st1 @ [built_document L cfg env3 p]\<rparr>"
  from ok have ok1: "indexer (built_document L cfg env1 p) = None"
    and ok3: "indexer (built_document L cfg env3 p) = None" by simp_all
  from stamp have s2: "\<not> IsZero (parseTimestamp L (rawNews.Timestamp p))
      \<or> now_fallback env1 div 1000000000 = now_fallback env2 div 1000000000"
    and s3: "\<not> IsZero (parseTimestamp L (rawNews.Timestamp p))
      \<or> now_fallback env1 div 1000000000 = now_fallback env3 div 1000000000"
    by simp_all
  have first: "processMessage L indexer cfg env1 st msg = (None, ?st1)"
    using dec ne ok1 new by (rule processMessage_new)
  have same2: "ID (built_document L cfg env2 p) = ?id"
    using s2 by (rule built_document_ID_stamp)
  have same3: "ID (built_document L cfg env3 p) = ?id"
    using s3 by (rule built_document_ID_stamp)
  have "IsSeen (cache ?st1) (now_IsSeen env2) (ID (built_document L cfg env2 p))"
    using processMessage_again [OF dec ne same2 inv nohist] within by simp
  with dec ne have second: "processMessage L indexer cfg env2 ?st1 msg = (None, ?st1)"
    by (rule processMessage_duplicate)
  have "\<not> IsSeen (cache ?st1) (now_IsSeen env3) (ID (built_document L cfg env3 p))"
    using processMessage_again [OF dec ne same3 inv nohist] late by simp
  with dec ne ok3 have third: "processMessage L indexer cfg env3 ?st1 msg = (None, ?st3)"
    by (rule processMessage_new)
  have "index_calls ?st3
      = index_calls st @ [built_document L cfg env1 p, built_document L cfg env3 p]"
    and "cache ?st3 = MarkSeen (cache ?st1) (now_MarkSeen env3) (ID (built_document L cfg env3 p))"
    by simp_all
  with first second third
  show "\<exists>st1 st3.
          processMessage L indexer cfg env1 st msg = (None, st1)
        \<and> processMessage L indexer cfg env2 st1 msg = (None, st1)
        \<and> processMessage L indexer cfg env3 st1 msg = (None, st3)
        \<and> index_calls st3
            = index_calls st @ [built_document L cfg env1 p, built_document L cfg env3 p]
        \<and> cache st3 = MarkSeen (cache st1) (now_MarkSeen env3) (ID (built_document L cfg env3 p))"
    by blast
qed

text \<open>
  With the default window of 24 hours: indexed at 15:04:05, dropped 23 hours later,
  indexed again 25 hours later, two hours after the duplicate that was dropped.
\<close>

theorem duplicate_does_not_extend_window_witness:
  "length (index_calls (snd (
      processMessage sample_lib stubIndexer sample_cfg (readings_at 1704297845000000000)
        (snd (processMessage sample_lib stubIndexer sample_cfg (readings_at 1704290645000000000)
          (snd (processMessage sample_lib stubIndexer sample_cfg (readings_at 1704207845000000000)
                  fresh_state dated_message))
          dated_message))
        dated_message))) = 2
   \<and> processMessage sample_lib stubIndexer sample_cfg (readings_at 1704290645000000000)
        (snd (processMessage sample_lib stubIndexer sample_cfg (readings_at 1704207845000000000)
                fresh_state dated_message))
        dated_message
      = processMessage sample_lib stubIndexer sample_cfg (readings_at 1704207845000000000)
          fresh_state dated_message
   \<and> now_IsSeen (readings_at 1704297845000000000) - now_IsSeen (readings_at 1704290645000000000)
        \<le> ttl (cache fresh_state)"
proof -
  let ?p = "\<lparr>rawNews.Title = asc ''Hot tour'', Text = asc ''Sea and sun'',
             Timestamp = asc ''2024-01-02T15:04:05Z'', Source = asc ''rss''\<rparr>"
  let ?e1 = "readings_at 1704207845000000000" and ?e2 = "readings_at 1704290645000000000"
    and ?e3 = "readings_at 1704297845000000000"
  have ne: "\<not> (TrimSpace (rawNews.Title ?p) = [] \<and> TrimSpace (rawNews.Text ?p) = [])"
    using dated_message_checks(1) by simp
  have stamp: "\<not> IsZero (parseTimestamp sample_lib (rawNews.Timestamp ?p))"
    using dated_message_checks(2) by simp
  have ok: "\<forall>doc. stubIndexer doc = None"
    by (simp add: stubIndexer_def)
  have inv: "cache_inv (cache fresh_state)"
    by (simp add: fresh_state_def cache_inv_NewCache)
  have new: "\<not> IsSeen (cache fresh_state) (now_IsSeen ?e1)
               (ID (built_document sample_lib sample_cfg ?e1 ?p))"
    by (simp add: fresh_state_def IsSeen_def NewCache_fields)
  have nohist: "\<lparr>key = ID (built_document sample_lib sample_cfg ?e1 ?p), ts = now_MarkSeen ?e1\<rparr>
      \<notin> set (order (cache fresh_state))"
    by (simp add: fresh_state_def NewCache_fields)
  have within: "now_IsSeen ?e2 - now_MarkSeen ?e1 \<le> ttl (cache fresh_state)"
    by (simp add: fresh_state_def NewCache_fields readings_at_def Hour_def)
  have late: "ttl (cache fresh_state) < now_IsSeen ?e3 - now_MarkSeen ?e1"
    by (simp add: fresh_state_def NewCache_fields readings_at_def Hour_def)
  have close: "now_IsSeen ?e3 - now_IsSeen ?e2 \<le> ttl (cache fresh_state)"
    by (simp add: fresh_state_def NewCache_fields readings_at_def Hour_def)
  from duplicate_does_not_extend_window
    [OF dated_message_decoded ne stamp ok inv new nohist within late]
  obtain st1 st3 where
    "processMessage sample_lib stubIndexer sample_cfg ?e1 fresh_state dated_message = (None, st1)"
    "processMessage sample_lib stubIndexer sample_cfg ?e2 st1 dated_message = (None, st1)"
    "processMessage sample_lib stubIndexer sample_cfg ?e3 st1 dated_message = (None, st3)"
    "index_calls st3 = index_calls fresh_state
        @ [built_document sample_lib sample_cfg ?e1 ?p, built_document sample_lib sample_cfg ?e3 ?p]"
    by blast
  with close show ?thesis by (simp add: fresh_state_def)
qed

text \<open>
  C2 fails in the code for a text that URL removal leaves without a word: the message
  with an empty title and the text \<^verbatim>\<open>https://example.com\<close> is indexed with an empty title.
\<close>

theorem url_only_text_empty_title:
  "TrimSpace (asc ''https://example.com'') \<noteq> []
   \<and> GenerateTitleFromText (TrimSpace (asc ''https://example.com'')) 10 = []
   \<and> map NewsDocument.Title (index_calls (snd (
        processMessage sample_lib stubIndexer sample_cfg (readings_at 1704207845000000000)
          fresh_state url_only_message))) = [[]]"
  by code_simp

section \<open>The query compiler\<close>

lemma key_names [simp]:
  "asc ''must'' \<noteq> asc ''filter''" "asc ''filter'' \<noteq> asc ''must''"
  "asc ''sort'' \<noteq> asc ''from''" "asc ''sort'' \<noteq> asc ''size''"
  "asc ''sort'' \<noteq> asc ''track_total_hits''" "asc ''sort'' \<noteq> asc ''query''"
  "asc ''from'' \<noteq> asc ''size''" "asc ''size'' \<noteq> asc ''from''"
  "asc ''track_total_hits'' \<noteq> asc ''from''" "asc ''track_total_hits'' \<noteq> asc ''size''"
  "asc ''query'' \<noteq> asc ''from''" "asc ''query'' \<noteq> asc ''size''"
  "asc ''query'' \<noteq> asc ''track_total_hits''"
  "asc ''gte'' \<noteq> asc ''lte''" "asc ''lte'' \<noteq> asc ''gte''"
  "asc ''from'' \<noteq> asc ''sort''" "asc ''size'' \<noteq> asc ''sort''"
  "asc ''track_total_hits'' \<noteq> asc ''sort''" "asc ''query'' \<noteq> asc ''sort''"
  "asc ''query'' \<noteq> asc ''fields''" "asc ''fields'' \<noteq> asc ''query''"
  by (simp_all add: asc_simps)

lemma clause_keys [simp]:
  "has_key k (multi_match_clause q) \<longleftrightarrow> k = asc ''multi_match''"
  "has_key k (terms_clause ks) \<longleftrightarrow> k = asc ''terms''"
  "has_key k (term_clause s) \<longleftrightarrow> k = asc ''term''"
  "has_key k (range_clause a b) \<longleftrightarrow> k = asc ''range''"
  "has_key k match_all_clause \<longleftrightarrow> k = asc ''match_all''"
  by (auto simp: has_key_def multi_match_clause_def terms_clause_def term_clause_def
      range_clause_def match_all_clause_def)

lemma clause_names [simp]:
  "asc ''multi_match'' \<noteq> asc ''match_all''" "asc ''match_all'' \<noteq> asc ''multi_match''"
  "asc ''terms'' \<noteq> asc ''term''" "asc ''term'' \<noteq> asc ''terms''"
  "asc ''terms'' \<noteq> asc ''range''" "asc ''range'' \<noteq> asc ''terms''"
  "asc ''term'' \<noteq> asc ''range''" "asc ''range'' \<noteq> asc ''term''"
  by (simp_all add: asc_simps)

lemma multi_match_clause_content:
  "json_at (multi_match_clause q) [asc ''multi_match'', asc ''query''] = Some (JString q)"
  "json_at (multi_match_clause q) [asc ''multi_match'', asc ''fields'']
     = Some (JArray [JString (asc ''title^2''), JString (asc ''text'')])"
  "keys_of (json_at (multi_match_clause q) [asc ''multi_match'']) = {asc ''query'', asc ''fields''}"
  "keys_of (Some (multi_match_clause q)) = {asc ''multi_match''}"
  by (auto simp: multi_match_clause_def update_conv')

lemma terms_clause_content:
  "json_at (terms_clause ks) [asc ''terms'', asc ''keywords''] = Some (JArray (map JString ks))"
  "keys_of (json_at (terms_clause ks) [asc ''terms'']) = {asc ''keywords''}"
  "keys_of (Some (terms_clause ks)) = {asc ''terms''}"
  by (simp_all add: terms_clause_def)

lemma term_clause_content:
  "json_at (term_clause s) [asc ''term'', asc ''source''] = Some (JString s)"
  "keys_of (json_at (term_clause s) [asc ''term'']) = {asc ''source''}"
  "keys_of (Some (term_clause s)) = {asc ''term''}"
  by (simp_all add: term_clause_def)

lemma range_clause_content:
  "json_at (range_clause start stop) [asc ''range'', asc ''timestamp'', asc ''gte'']
     = map_option (\<lambda>t. JString (Format_RFC3339_UTC t)) start"
  "json_at (range_clause start stop) [asc ''range'', asc ''timestamp'', asc ''lte'']
     = map_option (\<lambda>t. JString (Format_RFC3339_UTC t)) stop"
  "keys_of (json_at (range_clause start stop) [asc ''range'', asc ''timestamp''])
     = (if start = None then {} else {asc ''gte''}) \<union> (if stop = None then {} else {asc ''lte''})"
  "keys_of (json_at (range_clause start stop) [asc ''range'']) = {asc ''timestamp''}"
  "keys_of (Some (range_clause start stop)) = {asc ''range''}"
  by (auto simp: range_clause_def rangeQuery_def Let_def update_conv' split: option.splits)

lemma search_body_top:
  "member (search_body params) (asc ''size'')
     = Some (JInt (if Size params \<le> 0 then 20 else if Size params > 200 then 200 else Size params))"
  "member (search_body params) (asc ''from'')
     = Some (JInt (if From params < 0 then 0 else From params))"
  "member (search_body params) (asc ''track_total_hits'') = Some (JBool True)"
  by (simp_all add: search_body_def Let_def update_conv')

lemma search_body_query:
  "bool_query (search_body params) =
     JObject
       (let must = (if Query params \<noteq> [] then [multi_match_clause (Query params)] else []);
            filters = (if Keywords params \<noteq> [] then [terms_clause (Keywords params)] else [])
                    @ (if Source params \<noteq> [] then [term_clause (Source params)] else [])
                    @ (if Start params \<noteq> None \<or> End params \<noteq> None
                       then [range_clause (Start params) (End params)] else []);
            b = (if must \<noteq> [] then AList.update (asc ''must'') (JArray must) [] else []);
            b = (if filters \<noteq> [] then AList.update (asc ''filter'') (JArray filters) b else b)
        in if must = [] \<and> filters = []
           then AList.update (asc ''must'') (JArray [match_all_clause]) b else b)"
  by (simp add: search_body_def bool_query_def Let_def update_conv')

lemma search_body_must:
  "elements (member (bool_query (search_body params)) (asc ''must'')) =
     (if Query params \<noteq> [] then [multi_match_clause (Query params)]
      else if Keywords params = [] \<and> Source params = [] \<and> Start params = None \<and> End params = None
        then [match_all_clause]
      else [])"
  unfolding search_body_query by (simp add: Let_def update_conv')

lemma search_body_filter:
  "elements (member (bool_query (search_body params)) (asc ''filter'')) =
     (if Keywords params \<noteq> [] then [terms_clause (Keywords params)] else [])
     @ (if Source params \<noteq> [] then [term_clause (Source params)] else [])
     @ (if Start params \<noteq> None \<or> End params \<noteq> None
        then [range_clause (Start params) (End params)] else [])"
  unfolding search_body_query by (simp add: Let_def update_conv')

lemma split_from_not_Nil: "split_from sep cur s \<noteq> []"
  by (induction s arbitrary: cur) auto

lemma search_body_sort:
  "\<exists>field ord. member (search_body params) (asc ''sort'')
       = Some (JArray [JObject [(field, JObject [(asc ''order'', JString ord)])]])
     \<and> field \<noteq> [] \<and> ord \<noteq> []
     \<and> (Sort params = [] \<longrightarrow> field = asc ''timestamp'' \<and> ord = asc ''desc'')"
proof (cases "Sort params = []")
  case True
  have "Split (asc ''timestamp:desc'') 58 = [asc ''timestamp'', asc ''desc'']"
    by code_simp
  with True show ?thesis
    by (simp add: search_body_def Let_def update_conv' asc_simps)
next
  case False
  then show ?thesis
    by (simp add: search_body_def Let_def update_conv' asc_simps split: list.splits)
qed

text \<open>
  C5. For every \<open>SearchParams\<close>, in the body \<open>SearchNews\<close> builds: \<open>size\<close> is \<open>Size\<close>
  clamped into 1 to 200, and 20 when \<open>Size\<close> is not positive; \<open>from\<close> is \<open>From\<close>, and 0
  when \<open>From\<close> is negative; \<open>track_total_hits\<close> is true. The \<open>must\<close> group has a
  \<open>multi_match\<close> clause exactly when \<open>Query\<close> is not empty, and that clause carries the
  query and the fields \<open>title^2\<close> and \<open>text\<close>, and nothing else. The \<open>filter\<close> group has a
  \<open>terms\<close> clause exactly when there are keywords, with the keywords under \<open>keywords\<close>; a
  \<open>term\<close> clause exactly when \<open>Source\<close> is not empty, with the source under \<open>source\<close>; and
  a \<open>range\<close> clause exactly when \<open>Start\<close> or \<open>End\<close> is given, on \<open>timestamp\<close>, whose keys
  are \<open>gte\<close> exactly when \<open>Start\<close> is given and \<open>lte\<close> exactly when \<open>End\<close> is given, each
  with its instant as RFC3339 text in UTC. The groups have no other clause: \<open>must\<close> has at
  most one, \<open>filter\<close> one for each parameter present. \<open>match_all\<close>, with an empty object,
  is emitted exactly when both groups would be empty; and \<open>sort\<close> is one descriptor of one
  field with an \<open>order\<close>, \<open>timestamp\<close> descending when \<open>Sort\<close> is empty.
\<close>

theorem search_body_postcondition:
  "let body = search_body params;
       must = elements (member (bool_query body) (asc ''must''));
       filters = elements (member (bool_query body) (asc ''filter''))
   in (\<exists>size. member body (asc ''size'') = Some (JInt size) \<and> 1 \<le> size \<and> size \<le> 200
          \<and> (Size params \<le> 0 \<longrightarrow> size = 20)
          \<and> (0 < Size params \<longrightarrow> size = min (Size params) 200))
    \<and> member body (asc ''from'') = Some (JInt (max 0 (From params)))
    \<and> member body (asc ''track_total_hits'') = Some (JBool True)
    \<and> ((\<exists>c \<in> set must. has_key (asc ''multi_match'') c) \<longleftrightarrow> Query params \<noteq> [])
    \<and> (\<forall>c \<in> set must. has_key (asc ''multi_match'') c \<longrightarrow>
          json_at c [asc ''multi_match'', asc ''query''] = Some (JString (Query params))
        \<and> json_at c [asc ''multi_match'', asc ''fields'']
            = Some (JArray [JString (asc ''title^2''), JString (asc ''text'')])
        \<and> keys_of (json_at c [asc ''multi_match'']) = {asc ''query'', asc ''fields''}
        \<and> keys_of (Some c) = {asc ''multi_match''})
    \<and> ((\<exists>c \<in> set filters. has_key (asc ''terms'') c) \<longleftrightarrow> Keywords params \<noteq> [])
    \<and> (\<forall>c \<in> set filters. has_key (asc ''terms'') c \<longrightarrow>
          json_at c [asc ''terms'', asc ''keywords''] = Some (JArray (map JString (Keywords params)))
        \<and> keys_of (json_at c [asc ''terms'']) = {asc ''keywords''}
        \<and> keys_of (Some c) = {asc ''terms''})
    \<and> ((\<exists>c \<in> set filters. has_key (asc ''term'') c) \<longleftrightarrow> Source params \<noteq> [])
    \<and> (\<forall>c \<in> set filters. has_key (asc ''term'') c \<longrightarrow>
          json_at c [asc ''term'', asc ''source''] = Some (JString (Source params))
        \<and> keys_of (json_at c [asc ''term'']) = {asc ''source''}
        \<and> keys_of (Some c) = {asc ''term''})
    \<and> ((\<exists>c \<in> set filters. has_key (asc ''range'') c)
          \<longleftrightarrow> Start params \<noteq> None \<or> End params \<noteq> None)
    \<and> (\<forall>c \<in> set filters. has_key (asc ''range'') c \<longrightarrow>
          json_at c [asc ''range'', asc ''timestamp'', asc ''gte'']
            = map_option (\<lambda>t. JString (Format_RFC3339_UTC t)) (Start params)
        \<and> json_at c [asc ''range'', asc ''timestamp'', asc ''lte'']
            = map_option (\<lambda>t. JString (Format_RFC3339_UTC t)) (End params)
        \<and> keys_of (json_at c [asc ''range'', asc ''timestamp''])
            = (if Start params = None then {} else {asc ''gte''})
              \<union> (if End params = None then {} else {asc ''lte''})
        \<and> keys_of (json_at c [asc ''range'']) = {asc ''timestamp''}
        \<and> keys_of (Some c) = {asc ''range''})
    \<and> ((\<exists>c \<in> set must. has_key (asc ''match_all'') c)
          \<longleftrightarrow> Query params = [] \<and> Keywords params = [] \<and> Source params = []
              \<and> Start params = None \<and> End params = None)
    \<and> (\<forall>c \<in> set must. has_key (asc ''match_all'') c
          \<longrightarrow> c = JObject [(asc ''match_all'', JObject [])])
    \<and> length must \<le> 1
    \<and> length filters = (if Keywords params \<noteq> [] then 1 else 0)
          + (if Source params \<noteq> [] then 1 else 0)
          + (if Start params \<noteq> None \<or> End params \<noteq> None then 1 else 0)
    \<and> (\<exists>field ord. member body (asc ''sort'')
            = Some (JArray [JObject [(field, JObject [(asc ''order'', JString ord)])]])
          \<and> field \<noteq> [] \<and> ord \<noteq> []
          \<and> (Sort params = [] \<longrightarrow> field = asc ''timestamp'' \<and> ord = asc ''desc''))"
proof -
  let ?body = "search_body params"
  let ?must = "elements (member (bool_query ?body) (asc ''must''))"
  let ?filters = "elements (member (bool_query ?body) (asc ''filter''))"
  have c1: "\<exists>size. member ?body (asc ''size'') = Some (JInt size) \<and> 1 \<le> size \<and> size \<le> 200
          \<and> (Size params \<le> 0 \<longrightarrow> size = 20)
          \<and> (0 < Size params \<longrightarrow> size = min (Size params) 200)"
    by (simp add: search_body_top)
  have c2: "member ?body (asc ''from'') = Some (JInt (max 0 (From params)))"
    by (simp add: search_body_top max_def)
  have c3: "member ?body (asc ''track_total_hits'') = Some (JBool True)"
    by (rule search_body_top)
  have c4: "(\<exists>c \<in> set ?must. has_key (asc ''multi_match'') c) \<longleftrightarrow> Query params \<noteq> []"
    and c12: "(\<exists>c \<in> set ?must. has_key (asc ''match_all'') c)
          \<longleftrightarrow> Query params = [] \<and> Keywords params = [] \<and> Source params = []
              \<and> Start params = None \<and> End params = None"
    and c16: "length ?must \<le> 1"
    unfolding search_body_must by simp_all
  have c5: "\<forall>c \<in> set ?must. has_key (asc ''multi_match'') c \<longrightarrow>
          json_at c [asc ''multi_match'', asc ''query''] = Some (JString (Query params))
        \<and> json_at c [asc ''multi_match'', asc ''fields'']
            = Some (JArray [JString (asc ''title^2''), JString (asc ''text'')])
        \<and> keys_of (json_at c [asc ''multi_match'']) = {asc ''query'', asc ''fields''}
        \<and> keys_of (Some c) = {asc ''multi_match''}"
    unfolding search_body_must by (simp add: multi_match_clause_content del: json_at.simps)
  have c13: "\<forall>c \<in> set ?must. has_key (asc ''match_all'') c
          \<longrightarrow> c = JObject [(asc ''match_all'', JObject [])]"
    unfolding search_body_must by (simp add: match_all_clause_def [symmetric])
  have c6: "(\<exists>c \<in> set ?filters. has_key (asc ''terms'') c) \<longleftrightarrow> Keywords params \<noteq> []"
    and c8: "(\<exists>c \<in> set ?filters. has_key (asc ''term'') c) \<longleftrightarrow> Source params \<noteq> []"
    and c10: "(\<exists>c \<in> set ?filters. has_key (asc ''range'') c)
          \<longleftrightarrow> Start params \<noteq> None \<or> End params \<noteq> None"
    unfolding search_body_filter by auto
  have c7: "\<forall>c \<in> set ?filters. has_key (asc ''terms'') c \<longrightarrow>
          json_at c [asc ''terms'', asc ''keywords''] = Some (JArray (map JString (Keywords params)))
        \<and> keys_of (json_at c [asc ''terms'']) = {asc ''keywords''}
        \<and> keys_of (Some c) = {asc ''terms''}"
    unfolding search_body_filter by (auto simp: terms_clause_content simp del: json_at.simps)
  have c9: "\<forall>c \<in> set ?filters. has_key (asc ''term'') c \<longrightarrow>
          json_at c [asc ''term'', asc ''source''] = Some (JString (Source params))
        \<and> keys_of (json_at c [asc ''term'']) = {asc ''source''}
        \<and> keys_of (Some c) = {asc ''term''}"
    unfolding search_body_filter by (auto simp: term_clause_content simp del: json_at.simps)
  have c11: "\<forall>c \<in> set ?filters. has_key (asc ''range'') c \<longrightarrow>
          json_at c [asc ''range'', asc ''timestamp'', asc ''gte'']
            = map_option (\<lambda>t. JString (Format_RFC3339_UTC t)) (Start params)
        \<and> json_at c [asc ''range'', asc ''timestamp'', asc ''lte'']
            = map_option (\<lambda>t. JString (Format_RFC3339_UTC t)) (End params)
        \<and> keys_of (json_at c [asc ''range'', asc ''timestamp''])
            = (if Start params = None then {} else {asc ''gte''})
              \<union> (if End params = None then {} else {asc ''lte''})
        \<and> keys_of (json_at c [asc ''range'']) = {asc ''timestamp''}
        \<and> keys_of (Some c) = {asc ''range''}"
    unfolding search_body_filter
    by (auto simp only: set_append set_simps Un_iff empty_iff insert_iff clause_keys
        clause_names range_clause_content split: if_splits)
  have c17: "length ?filters = (if Keywords params \<noteq> [] then 1 else 0)
          + (if Source params \<noteq> [] then 1 else 0)
          + (if Start params \<noteq> None \<or> End params \<noteq> None then 1 else 0)"
    unfolding search_body_filter by simp
  have c15: "\<exists>field ord. member ?body (asc ''sort'')
            = Some (JArray [JObject [(field, JObject [(asc ''order'', JString ord)])]])
          \<and> field \<noteq> [] \<and> ord \<noteq> []
          \<and> (Sort params = [] \<longrightarrow> field = asc ''timestamp'' \<and> ord = asc ''desc'')"
    by (rule search_body_sort)
  show ?thesis
    unfolding Let_def
    using c1 c2 c3 c4 c5 c6 c7 c8 c9 c10 c11 c12 c13 c16 c17 c15
    by (intro conjI)
qed

text \<open>
  A request for \<^verbatim>\<open>sea\<close> from the source \<^verbatim>\<open>rss\<close> up to 2 January 2024, 15:04:05 UTC, with
  a size above the bound, a negative offset and the default sort: the whole of what the
  body holds.
\<close>

theorem search_body_postcondition_witness:
  "member (search_body \<lparr>Query = asc ''sea'', Keywords = [], Source = asc ''rss'', From = - 1,
      Size = 500, Sort = [], Start = None,
      End = Some \<lparr>nanos = 1704207845000000000, offset = 0\<rparr>\<rparr>) (asc ''size'') = Some (JInt 200)
   \<and> member (search_body \<lparr>Query = asc ''sea'', Keywords = [], Source = asc ''rss'', From = - 1,
      Size = 500, Sort = [], Start = None,
      End = Some \<lparr>nanos = 1704207845000000000, offset = 0\<rparr>\<rparr>) (asc ''from'') = Some (JInt 0)
   \<and> member (search_body \<lparr>Query = asc ''sea'', Keywords = [], Source = asc ''rss'', From = - 1,
      Size = 500, Sort = [], Start = None,
      End = Some \<lparr>nanos = 1704207845000000000, offset = 0\<rparr>\<rparr>) (asc ''track_total_hits'')
     = Some (JBool True)
   \<and> elements (member (bool_query (search_body \<lparr>Query = asc ''sea'', Keywords = [],
      Source = asc ''rss'', From = - 1, Size = 500, Sort = [], Start = None,
      End = Some \<lparr>nanos = 1704207845000000000, offset = 0\<rparr>\<rparr>)) (asc ''must''))
     = [JObject [(asc ''multi_match'',
          JObject [(asc ''query'', JString (asc ''sea'')),
                   (asc ''fields'', JArray [JString (asc ''title^2''), JString (asc ''text'')])])]]
   \<and> elements (member (bool_query (search_body \<lparr>Query = asc ''sea'', Keywords = [],
      Source = asc ''rss'', From = - 1, Size = 500, Sort = [], Start = None,
      End = Some \<lparr>nanos = 1704207845000000000, offset = 0\<rparr>\<rparr>)) (asc ''filter''))
     = [JObject [(asc ''term'', JObject [(asc ''source'', JString (asc ''rss''))])],
        JObject [(asc ''range'', JObject [(asc ''timestamp'',
          JObject [(asc ''lte'', JString (asc ''2024-01-02T15:04:05Z''))])])]]
   \<and> member (search_body \<lparr>Query = asc ''sea'', Keywords = [], Source = asc ''rss'', From = - 1,
      Size = 500, Sort = [], Start = None,
      End = Some \<lparr>nanos = 1704207845000000000, offset = 0\<rparr>\<rparr>) (asc ''sort'')
     = Some (JArray [JObject [(asc ''timestamp'', JObject [(asc ''order'', JString (asc ''desc''))])]])"
proof -
  let ?p = "\<lparr>Query = asc ''sea'', Keywords = [], Source = asc ''rss'', From = - 1,
      Size = 500, Sort = [], Start = None,
      End = Some \<lparr>nanos = 1704207845000000000, offset = 0\<rparr>\<rparr>"
  from search_body_postcondition [of ?p]
  have "member (search_body ?p) (asc ''size'') = Some (JInt 200)"
    and "member (search_body ?p) (asc ''from'') = Some (JInt 0)"
    and "member (search_body ?p) (asc ''track_total_hits'') = Some (JBool True)"
    and "member (search_body ?p) (asc ''sort'')
     = Some (JArray [JObject [(asc ''timestamp'', JObject [(asc ''order'', JString (asc ''desc''))])]])"
    unfolding Let_def by auto
  moreover have "elements (member (bool_query (search_body ?p)) (asc ''must''))
     = [JObject [(asc ''multi_match'',
          JObject [(asc ''query'', JString (asc ''sea'')),
                   (asc ''fields'', JArray [JString (asc ''title^2''), JString (asc ''text'')])])]]"
    by code_simp
  moreover have "elements (member (bool_query (search_body ?p)) (asc ''filter''))
     = [JObject [(asc ''term'', JObject [(asc ''source'', JString (asc ''rss''))])],
        JObject [(asc ''range'', JObject [(asc ''timestamp'',
          JObject [(asc ''lte'', JString (asc ''2024-01-02T15:04:05Z''))])])]]"
    by code_simp
  ultimately show ?thesis by simp
qed

section \<open>GET /news: parameter parsing and status\<close>

lemma decimal_value_snoc: "decimal_value (ds @ [c]) = 10 * decimal_value ds + (c - 48)"
  by (simp add: decimal_value_def)

lemma decimal_value_nonneg: "list_all is_digit ds \<Longrightarrow> 0 \<le> decimal_value ds"
proof (induction ds rule: rev_induct)
  case Nil
  then show ?case by (simp add: decimal_value_def)
next
  case (snoc c ds)
  then have "0 \<le> decimal_value ds" and "48 \<le> c" by (simp_all add: is_digit_def)
  then show ?case by (simp add: decimal_value_snoc)
qed

lemma Atoi_digits:
  assumes "ds \<noteq> []" and "list_all is_digit ds"
  shows "Atoi ds = (if decimal_value ds \<le> 9223372036854775807 then Some (decimal_value ds) else None)"
proof -
  from assms obtain c cs where ds: "ds = c # cs" by (cases ds) auto
  with assms(2) have "is_digit c" by simp
  then have "c \<noteq> 45" "c \<noteq> 43" by (auto simp: is_digit_def)
  moreover from assms(2) have "0 \<le> decimal_value ds" by (rule decimal_value_nonneg)
  ultimately show ?thesis
    using assms by (auto simp: Atoi_def Let_def ds)
qed

lemma clampInt_value:
  "clampInt raw fallback maxv =
     (case Atoi raw of Some v \<Rightarrow> if 0 < v then min v maxv else fallback | None \<Rightarrow> fallback)"
  by (cases "raw = []") (auto simp: clampInt_def Atoi_def min_def split: option.splits)

lemma parseTime_cases:
  "time_Parse L RFC3339 (TrimSpace raw) = None \<Longrightarrow> parseTime L raw = None"
  "parseTime L raw = Some t \<Longrightarrow> time_Parse L RFC3339 (TrimSpace raw) = Some t"
  by (auto simp: parseTime_def Let_def split: if_splits)

lemma handleSearch_status:
  "fst (handleSearch L cfg es get) = (case SearchNews es (search_params L cfg get) of
                                         Inl err \<Rightarrow> 500 | Inr result \<Rightarrow> 200)"
  by (simp add: handleSearch_def split: sum.splits)

text \<open>
  C10 (as amended). Parsing the parameters of \<^verbatim>\<open>GET /news\<close> never gives a client-error
  response: for every request the status is 200, or 500 when the index backend returns
  an error, and nothing else. \<open>from\<close> is 0 and \<open>size\<close> the configured default page size
  when the parameter is missing, is not accepted by \<^verbatim>\<open>strconv.Atoi\<close> or is not positive;
  a positive value is clamped to the maximum (10000 for \<open>from\<close>, the configured maximum
  page size for \<open>size\<close>). \<^verbatim>\<open>strconv.Atoi\<close> accepts a string of digits exactly when its
  value fits a 64-bit \<^verbatim>\<open>int\<close>, so a number beyond that range falls back like a
  non-numeric text instead of being clamped. A \<open>start\<close> or \<open>end\<close> that \<^verbatim>\<open>time.Parse\<close>
  rejects as RFC3339 is ignored: the bound is absent from the parameters.
\<close>

theorem handleSearch_no_client_error:
  "let p = search_params L cfg get;
       status = fst (handleSearch L cfg es get)
   in (status = 200 \<or> status = 500)
    \<and> (status = 500 \<longleftrightarrow> (\<exists>err. SearchNews es p = Inl err))
    \<and> From p = (case Atoi (get (asc ''from'')) of
                  Some v \<Rightarrow> if 0 < v then min v 10000 else 0 | None \<Rightarrow> 0)
    \<and> Size p = (case Atoi (get (asc ''size'')) of
                  Some v \<Rightarrow> if 0 < v then min v (MaxPage cfg) else DefaultPage cfg
                | None \<Rightarrow> DefaultPage cfg)
    \<and> Atoi [] = None
    \<and> (\<forall>ds. ds \<noteq> [] \<and> list_all is_digit ds \<longrightarrow>
          Atoi ds = (if decimal_value ds \<le> 9223372036854775807 then Some (decimal_value ds)
                     else None))
    \<and> (time_Parse L RFC3339 (TrimSpace (get (asc ''start''))) = None \<longrightarrow> Start p = None)
    \<and> (time_Parse L RFC3339 (TrimSpace (get (asc ''end''))) = None \<longrightarrow> End p = None)
    \<and> (\<forall>t. Start p = Some t \<longrightarrow> time_Parse L RFC3339 (TrimSpace (get (asc ''start''))) = Some t)
    \<and> (\<forall>t. End p = Some t \<longrightarrow> time_Parse L RFC3339 (TrimSpace (get (asc ''end''))) = Some t)"
proof -
  let ?p = "search_params L cfg get"
  let ?status = "fst (handleSearch L cfg es get)"
  have s1: "?status = 200 \<or> ?status = 500"
    and s2: "?status = 500 \<longleftrightarrow> (\<exists>err. SearchNews es ?p = Inl err)"
    by (auto simp: handleSearch_status split: sum.splits)
  have f: "From ?p = (case Atoi (get (asc ''from'')) of
                  Some v \<Rightarrow> if 0 < v then min v 10000 else 0 | None \<Rightarrow> 0)"
    and z: "Size ?p = (case Atoi (get (asc ''size'')) of
                  Some v \<Rightarrow> if 0 < v then min v (MaxPage cfg) else DefaultPage cfg
                | None \<Rightarrow> DefaultPage cfg)"
    by (simp_all add: search_params_def clampInt_value)
  have a0: "Atoi [] = None"
    by (simp add: Atoi_def)
  have a1: "\<forall>ds. ds \<noteq> [] \<and> list_all is_digit ds \<longrightarrow>
          Atoi ds = (if decimal_value ds \<le> 9223372036854775807 then Some (decimal_value ds)
                     else None)"
    using Atoi_digits by blast
  have t1: "time_Parse L RFC3339 (TrimSpace (get (asc ''start''))) = None \<longrightarrow> Start ?p = None"
    and t2: "time_Parse L RFC3339 (TrimSpace (get (asc ''end''))) = None \<longrightarrow> End ?p = None"
    and t3: "\<forall>t. Start ?p = Some t \<longrightarrow> time_Parse L RFC3339 (TrimSpace (get (asc ''start''))) = Some t"
    and t4: "\<forall>t. End ?p = Some t \<longrightarrow> time_Parse L RFC3339 (TrimSpace (get (asc ''end''))) = Some t"
    by (simp_all add: search_params_def parseTime_cases)
  show ?thesis
    unfolding Let_def using s1 s2 f z a0 a1 t1 t2 t3 t4 by (intro conjI)
qed

text \<open>
  The request \<^verbatim>\<open>q=sea&from=-5&size=500&start=yesterday&end=2024-01-02T15:04:05Z\<close>
  with a default page size of 20 and a maximum of 100.
\<close>

theorem handleSearch_no_client_error_witness:
  "fst (handleSearch sample_lib sample_api empty_index sample_request) = 200
   \<and> From (search_params sample_lib sample_api sample_request) = 0
   \<and> Size (search_params sample_lib sample_api sample_request) = 100
   \<and> Start (search_params sample_lib sample_api sample_request) = None
   \<and> End (search_params sample_lib sample_api sample_request)
       = Some \<lparr>nanos = 1704207845000000000, offset = 0\<rparr>"
proof -
  have a: "Atoi (sample_request (asc ''from'')) = Some (- 5)"
    "Atoi (sample_request (asc ''size'')) = Some 500"
    "time_Parse sample_lib RFC3339 (TrimSpace (sample_request (asc ''start''))) = None"
    "SearchNews empty_index (search_params sample_lib sample_api sample_request)
       = Inr \<lparr>Total = 0, Items = []\<rparr>"
    by code_simp+
  have e: "End (search_params sample_lib sample_api sample_request)
       = Some \<lparr>nanos = 1704207845000000000, offset = 0\<rparr>"
    by code_simp
  have m: "MaxPage sample_api = 100" "DefaultPage sample_api = 20"
    by (simp_all add: sample_api_def)
  from handleSearch_no_client_error [of sample_lib sample_api sample_request empty_index]
  have "fst (handleSearch sample_lib sample_api empty_index sample_request) = 200"
    and "From (search_params sample_lib sample_api sample_request) = 0"
    and "Size (search_params sample_lib sample_api sample_request) = 100"
    and "Start (search_params sample_lib sample_api sample_request) = None"
    unfolding Let_def by (auto simp: a m)
  with e show ?thesis by simp
qed

text \<open>
  C10 as stated fails for a page size that does not fit a 64-bit \<^verbatim>\<open>int\<close>:
  \<^verbatim>\<open>size=9223372036854775808\<close> is a value above the maximum page size, and the code
  answers with the default page size 20, not with the maximum 100.
\<close>

theorem clampInt_beyond_int64:
  "list_all is_digit (asc ''9223372036854775808'')
   \<and> decimal_value (asc ''9223372036854775808'') = 9223372036854775808
   \<and> clampInt (asc ''9223372036854775808'') 20 100 = 20
   \<and> Size (search_params sample_lib sample_api
        (\<lambda>name. if name = asc ''size'' then asc ''9223372036854775808'' else [])) = 20"
  by code_simp

end
